theory Spec2Isabelle
  imports Complex_Main "HOL-Library.AList" "HOL-Library.Multiset"
begin

section \<open>Data model\<close>

text \<open>
  The dataclass \<^verbatim>\<open>Track\<close> of \<^verbatim>\<open>V14.py\<close>. Every field but the duration is a Python
  \<^verbatim>\<open>str\<close>; the duration is a number of seconds (an \<^verbatim>\<open>int\<close> or a finite \<^verbatim>\<open>float\<close>),
  read here as a real number.
\<close>

record Track =
  path :: string
  title :: string
  artist :: string
  album :: string
  genre :: string
  duration :: real

text \<open>The exceptions of Python that the modelled code can raise.\<close>

datatype error = IndexError | TypeError

text \<open>
  \<^verbatim>\<open>xs[i]\<close> of Python: a negative index counts from the end, an index outside the list
  raises \<^verbatim>\<open>IndexError\<close>.
\<close>

definition getitem :: "'a list \<Rightarrow> int \<Rightarrow> error + 'a" where
  "getitem xs i =
     (if 0 \<le> i \<and> i < int (length xs) then Inr (xs ! nat i)
      else if i < 0 \<and> - int (length xs) \<le> i then Inr (xs ! nat (int (length xs) + i))
      else Inl IndexError)"

subsection \<open>The player (wrapper of the playback engine)\<close>

text \<open>
  Modelled from the spec: the playback engine itself (the \<^verbatim>\<open>vlc\<close> library) is not part of
  the repository. Section 4.5 of the specification gives its states (idle, loaded-paused,
  playing) and the effect of \<^verbatim>\<open>load\<close>, \<^verbatim>\<open>play\<close> and \<^verbatim>\<open>seek\<close>; the record keeps the
  loaded medium, the state, the time in milliseconds that \<^verbatim>\<open>get_time\<close> reports, and the
  \<^verbatim>\<open>_repeat\<close> flag of the class \<^verbatim>\<open>Player\<close>.
\<close>

datatype pstate = Idle | LoadedPaused | Playing

record Player =
  media :: "string option"
  pstate :: pstate
  time_ms :: int
  repeat :: bool

definition load :: "string \<Rightarrow> Player \<Rightarrow> Player" where
  "load p pl = pl\<lparr>media := Some p, pstate := LoadedPaused, time_ms := 0\<rparr>"

definition play :: "Player \<Rightarrow> Player" where
  "play pl = (if media pl = None then pl else pl\<lparr>pstate := Playing\<rparr>)"

definition pause :: "Player \<Rightarrow> Player" where
  "pause pl = (if pstate pl = Playing then pl\<lparr>pstate := LoadedPaused\<rparr> else pl)"

text \<open>\<^verbatim>\<open>int(x)\<close> of Python on a number: truncation towards zero.\<close>

definition py_int :: "real \<Rightarrow> int" where
  "py_int x = (if 0 \<le> x then \<lfloor>x\<rfloor> else \<lceil>x\<rceil>)"

definition seek_seconds :: "real \<Rightarrow> Player \<Rightarrow> Player" where
  "seek_seconds s pl = (if media pl = None then pl else pl\<lparr>time_ms := py_int (s * 1000)\<rparr>)"

definition get_position_seconds :: "Player \<Rightarrow> real" where
  "get_position_seconds pl = max 0 (real_of_int (time_ms pl) / 1000)"

definition toggle_repeat :: "Player \<Rightarrow> Player" where
  "toggle_repeat pl = pl\<lparr>repeat := \<not> repeat pl\<rparr>"

subsection \<open>The library pane\<close>

text \<open>
  One row of the library table (six columns of text) and the pane: its folders, its table
  and the list \<^verbatim>\<open>_tracks\<close>, row \<open>i\<close> of the table showing track \<open>i\<close>.
\<close>

record row =
  c_title :: string
  c_artist :: string
  c_album :: string
  c_genre :: string
  c_duration :: string
  c_path :: string

record LibraryPane =
  folders :: "string list"
  table :: "row list"
  tracks :: "Track list"

subsection \<open>The main window\<close>

text \<open>
  One entry of the play history, as \<^verbatim>\<open>_log_play\<close> writes it (the time stamp of the entry
  is the wall clock's and is left out).
\<close>

record history_entry =
  h_path :: string
  h_title :: string
  h_artist :: string

text \<open>
  The state of \<^verbatim>\<open>MainWindow\<close> that the queue operations read and write: the player, the
  library pane, the dictionary \<^verbatim>\<open>_pls\<close> of the playlists pane (an association list in
  insertion order), the queue table (per row, the track stored in column 0, \<open>None\<close> for a
  row without one), the queue, the play index, and the history file that \<^verbatim>\<open>_log_play\<close>
  appends to. Labels, button texts and the lyrics panel are not part of it.
\<close>

record app =
  player :: Player
  library :: LibraryPane
  playlists :: "(string \<times> Track list) list"
  queue_table :: "Track option list"
  queue :: "Track list"
  play_index :: int
  history_log :: "history_entry list"

section \<open>Queue and playback operations of the main window\<close>

definition sync_queue_table :: "app \<Rightarrow> app" where
  "sync_queue_table s = s\<lparr>queue_table := map Some (queue s)\<rparr>"

definition log_play :: "Track \<Rightarrow> app \<Rightarrow> app" where
  "log_play t s =
     s\<lparr>history_log := history_log s @ [\<lparr>h_path = path t, h_title = title t, h_artist = artist t\<rparr>]\<rparr>"

definition play_current :: "app \<Rightarrow> error + app" where
  "play_current s =
     (if queue s = [] then Inr s
      else case getitem (queue s) (play_index s) of
          Inl e \<Rightarrow> Inl e
        | Inr t \<Rightarrow>
            Inr (log_play t (sync_queue_table (s\<lparr>player := play (load (path t) (player s))\<rparr>))))"

definition next_track :: "app \<Rightarrow> error + app" where
  "next_track s =
     (if queue s = [] then Inr s
      else play_current (s\<lparr>play_index := min (int (length (queue s)) - 1) (play_index s + 1)\<rparr>))"

definition prev_track :: "app \<Rightarrow> error + app" where
  "prev_track s =
     (if queue s = [] then Inr s
      else if get_position_seconds (player s) > 3
        then Inr (s\<lparr>player := seek_seconds 0 (player s)\<rparr>)
      else play_current (s\<lparr>play_index := max 0 (play_index s - 1)\<rparr>))"

definition on_track_end :: "app \<Rightarrow> error + app" where
  "on_track_end s = next_track s"

text \<open>
  \<^verbatim>\<open>Player._on_end\<close>: the signal \<^verbatim>\<open>trackFinished\<close> is connected to
  \<^verbatim>\<open>MainWindow._on_track_end\<close>.
\<close>

definition on_end :: "app \<Rightarrow> error + app" where
  "on_end s =
     (if repeat (player s) then Inr (s\<lparr>player := play (seek_seconds 0 (player s))\<rparr>)
      else on_track_end s)"

text \<open>
  \<^verbatim>\<open>next(i for i,x in enumerate(allt) if x.path==t.path)\<close>: the first index whose track has
  the path, \<open>None\<close> for \<^verbatim>\<open>StopIteration\<close>.
\<close>

fun first_index :: "string \<Rightarrow> Track list \<Rightarrow> nat option" where
  "first_index p [] = None"
| "first_index p (x # xs) =
     (if path x = p then Some 0 else map_option Suc (first_index p xs))"

definition play_track :: "Track \<Rightarrow> app \<Rightarrow> error + app" where
  "play_track t s =
     (let allt = tracks (library s);
          q = (case first_index (path t) allt of
                 Some i \<Rightarrow> drop i allt @ take i allt
               | None \<Rightarrow> [t])
      in map_sum id sync_queue_table (play_current (s\<lparr>queue := q, play_index := 0\<rparr>)))"

definition play_playlist :: "Track list \<Rightarrow> app \<Rightarrow> error + app" where
  "play_playlist ts s =
     (if ts = [] then Inr s
      else map_sum id sync_queue_table (play_current (s\<lparr>queue := ts, play_index := 0\<rparr>)))"

definition rebuild_queue_from_table :: "app \<Rightarrow> app" where
  "rebuild_queue_from_table s =
     (let newq = List.map_filter id (queue_table s)
      in if newq \<noteq> [] then s\<lparr>queue := newq, play_index := min (play_index s) (int (length newq) - 1)\<rparr>
         else s)"

text \<open>The next button pressed \<open>n\<close> times; an exception ends the sequence.\<close>

fun next_track_times :: "nat \<Rightarrow> app \<Rightarrow> error + app" where
  "next_track_times 0 s = Inr s"
| "next_track_times (Suc n) s =
     (case next_track s of Inl e \<Rightarrow> Inl e | Inr s' \<Rightarrow> next_track_times n s')"

section \<open>Playlists and the recommender\<close>

text \<open>
  \<^verbatim>\<open>PlaylistsPane.add_playlist\<close>: an assignment to the dictionary \<^verbatim>\<open>_pls\<close>. A name that is
  already a key keeps its place and gets the new list.
\<close>

definition add_playlist :: "string \<Rightarrow> Track list \<Rightarrow> app \<Rightarrow> app" where
  "add_playlist name ts s = s\<lparr>playlists := AList.update name ts (playlists s)\<rparr>"

text \<open>
  \<^verbatim>\<open>collections.Counter\<close> on a list: a dictionary from the elements to their counts, the
  keys in the order in which they were first met. \<^verbatim>\<open>most_common(n)\<close> is the first \<open>n\<close> items
  of the dictionary sorted by descending count; the sort is stable, so equal counts stay
  in the order of the dictionary.
\<close>

definition Counter :: "'a list \<Rightarrow> ('a \<times> nat) list" where
  "Counter xs = foldl (\<lambda>c x. AList.map_default x 1 Suc c) [] xs"

definition most_common :: "nat \<Rightarrow> ('a \<times> nat) list \<Rightarrow> ('a \<times> nat) list" where
  "most_common n c = take n (sort_key (\<lambda>kv. - int (snd kv)) c)"

text \<open>
  \<^verbatim>\<open>PlaylistsPane._make_recommended\<close>. The history file is a list of entries; the filter
  \<^verbatim>\<open>if d.get("artist")\<close> drops the entries whose artist is empty (or missing). The tracks
  are collected artist by artist, each time in the order of the library.
\<close>

definition top_artists :: "history_entry list \<Rightarrow> (string \<times> nat) list" where
  "top_artists data = most_common 3 (Counter (map h_artist (filter (\<lambda>d. h_artist d \<noteq> '''') data)))"

definition recommended :: "history_entry list \<Rightarrow> Track list \<Rightarrow> Track list" where
  "recommended data cat =
     concat (map (\<lambda>(a, n). filter (\<lambda>t. artist t = a) cat) (top_artists data))"

text \<open>
  The name of the playlist, \<open>Recommended\<close> after a fire emoji. The emoji is beyond the
  characters of the model and stands here as the four bytes of its UTF-8 form; the name is
  only used as a key.
\<close>

definition reco_name :: string where
  "reco_name = [CHR 0xF0, CHR 0x9F, CHR 0x94, CHR 0xA5] @ '' Recommended''"

text \<open>
  The argument is the content of the history file, \<open>None\<close> when there is no file (a message
  box is shown and nothing else happens).
\<close>

definition make_recommended :: "history_entry list option \<Rightarrow> app \<Rightarrow> app" where
  "make_recommended hist s =
     (case hist of
        None \<Rightarrow> s
      | Some data \<Rightarrow> add_playlist reco_name (recommended data (tracks (library s))) s)"

text \<open>
  The words of the specification, to compare the code with: the artists in the order in
  which the history first names them, and that list stably sorted by descending number of
  occurrences, cut to three.
\<close>

definition first_seen :: "'a list \<Rightarrow> 'a list" where
  "first_seen xs = rev (remdups (rev xs))"

definition spec_top3 :: "string list \<Rightarrow> string list" where
  "spec_top3 as = take 3 (sort_key (\<lambda>a. - int (count_list as a)) (first_seen as))"

section \<open>The lyrics panel\<close>

text \<open>
  The fields of \<^verbatim>\<open>LyricsPanel\<close> that the timer reads and writes: the parsed lines (time stamp
  in seconds and text) and the index of the highlighted line, \<open>-1\<close> when none is.
\<close>

record LyricsPanel =
  lines :: "(real \<times> string) list"
  idx :: int

text \<open>
  The two loops of \<^verbatim>\<open>LyricsPanel._tick\<close>:
  \<^verbatim>\<open>while i+1 < len(self.lines) and self.lines[i+1][0] <= sec: i += 1\<close> and
  \<^verbatim>\<open>while i > 0 and self.lines[i][0] > sec: i -= 1\<close>.
\<close>

function forward :: "(real \<times> string) list \<Rightarrow> real \<Rightarrow> int \<Rightarrow> error + int" where
  "forward ls sec i =
     (if i + 1 < int (length ls) then
        (case getitem ls (i + 1) of
           Inl e \<Rightarrow> Inl e
         | Inr l \<Rightarrow> if fst l \<le> sec then forward ls sec (i + 1) else Inr i)
      else Inr i)"
  by pat_completeness auto
termination
  by (relation "measure (\<lambda>(ls, sec, i). nat (int (length ls) - i))") auto

function backward :: "(real \<times> string) list \<Rightarrow> real \<Rightarrow> int \<Rightarrow> error + int" where
  "backward ls sec i =
     (if i > 0 then
        (case getitem ls i of
           Inl e \<Rightarrow> Inl e
         | Inr l \<Rightarrow> if fst l > sec then backward ls sec (i - 1) else Inr i)
      else Inr i)"
  by pat_completeness auto
termination
  by (relation "measure (\<lambda>(ls, sec, i). nat i)") auto

text \<open>
  \<^verbatim>\<open>LyricsPanel._tick\<close>. The first argument is what the playback callback returns, \<open>None\<close>
  when no callback is set. Rendering the highlight is left out: \<open>idx\<close> is the highlighted
  line.
\<close>

definition tick :: "real option \<Rightarrow> LyricsPanel \<Rightarrow> error + LyricsPanel" where
  "tick cb p =
     (case cb of
        None \<Rightarrow> Inr p
      | Some sec \<Rightarrow>
          if lines p = [] then Inr p
          else case forward (lines p) sec (idx p) of
              Inl e \<Rightarrow> Inl e
            | Inr i \<Rightarrow>
                (case backward (lines p) sec i of
                   Inl e \<Rightarrow> Inl e
                 | Inr j \<Rightarrow>
                     Inr (if j \<noteq> idx p \<and> 0 \<le> j \<and> j < int (length (lines p))
                          then p\<lparr>idx := j\<rparr> else p)))"

section \<open>Strings\<close>

text \<open>
  A Python \<^verbatim>\<open>str\<close> is modelled as a list of characters, a character being a code point
  below 256. Among these code points the decimal digits (what \<^verbatim>\<open>\d\<close> matches and \<^verbatim>\<open>int\<close>
  reads) are \<open>0\<close> to \<open>9\<close>; the white space that \<^verbatim>\<open>strip\<close> removes is the ASCII white space,
  the four separators \<open>0x1C\<close> to \<open>0x1F\<close>, the next-line character \<open>0x85\<close> and the no-break
  space \<open>0xA0\<close>; the line boundaries of \<^verbatim>\<open>splitlines\<close> are line feed, vertical tab, form feed,
  carriage return, the separators \<open>0x1C\<close> to \<open>0x1E\<close> and \<open>0x85\<close>.
\<close>

definition is_digit :: "char \<Rightarrow> bool" where
  "is_digit c = (c \<in> set ''0123456789'')"

definition is_space :: "char \<Rightarrow> bool" where
  "is_space c = (c \<in> set [CHR 0x09, CHR 0x0A, CHR 0x0B, CHR 0x0C, CHR 0x0D,
     CHR 0x1C, CHR 0x1D, CHR 0x1E, CHR 0x1F, CHR 0x20, CHR 0x85, CHR 0xA0])"


text \<open>\<^verbatim>\<open>s.strip()\<close>.\<close>

definition strip :: "string \<Rightarrow> string" where
  "strip s = rev (dropWhile is_space (rev (dropWhile is_space s)))"



text \<open>\<^verbatim>\<open>s.split(c)\<close> for a separator of one character.\<close>

fun split_on :: "char \<Rightarrow> string \<Rightarrow> string list" where
  "split_on c [] = [[]]"
| "split_on c (x # xs) =
     (if x = c then [] # split_on c xs
      else (case split_on c xs of [] \<Rightarrow> [[x]] | y # ys \<Rightarrow> (x # y) # ys))"

text \<open>
  \<^verbatim>\<open>s.replace(old, "")\<close>: every occurrence of \<open>old\<close>, found from the left and not
  overlapping, is removed. An empty \<open>old\<close> leaves the string as it is.
\<close>

function remove_all :: "string \<Rightarrow> string \<Rightarrow> string" where
  "remove_all old [] = []"
| "remove_all old (c # s) =
     (if old \<noteq> [] \<and> take (length old) (c # s) = old
      then remove_all old (drop (length old) (c # s))
      else c # remove_all old s)"
  by pat_completeness auto
termination
  by (relation "measure (\<lambda>(old, s). length s)") auto

text \<open>The value of a string of decimal digits, and the decimal digits of a number.\<close>

definition digit_value :: "char \<Rightarrow> nat" where
  "digit_value c = length (takeWhile (\<lambda>d. d \<noteq> c) ''0123456789'')"

definition dec :: "string \<Rightarrow> nat" where
  "dec ds = foldl (\<lambda>n c. 10 * n + digit_value c) 0 ds"

function show_nat :: "nat \<Rightarrow> string" where
  "show_nat n =
     (if n < 10 then [''0123456789'' ! n] else show_nat (n div 10) @ [''0123456789'' ! (n mod 10)])"
  by pat_completeness auto
termination
  by (relation "measure id") auto

declare show_nat.simps [simp del]

definition show_int :: "int \<Rightarrow> string" where
  "show_int i = (if i < 0 then CHR ''-'' # show_nat (nat (- i)) else show_nat (nat i))"

text \<open>
  \<^verbatim>\<open>int(s)\<close> on a string, \<open>None\<close> for \<^verbatim>\<open>ValueError\<close>: white space around the number is
  ignored, a sign may come first, and single underscores may stand between digits.
\<close>

fun digit_groups :: "string \<Rightarrow> bool" where
  "digit_groups [] = False"
| "digit_groups [c] = is_digit c"
| "digit_groups (c # d # s) =
     (is_digit c \<and> (if d = CHR ''_'' then digit_groups s else digit_groups (d # s)))"

definition int_of_str :: "string \<Rightarrow> int option" where
  "int_of_str s =
     (let t = strip s;
          neg = (case t of [] \<Rightarrow> False | c # r \<Rightarrow> c = CHR ''-'');
          body = (case t of [] \<Rightarrow> [] | c # r \<Rightarrow> if c = CHR ''-'' \<or> c = CHR ''+'' then r else t)
      in if digit_groups body
         then Some ((if neg then - 1 else 1) * int (dec (filter is_digit body)))
         else None)"

text \<open>
  \<^verbatim>\<open>os.path.basename\<close> and the first component of \<^verbatim>\<open>os.path.splitext\<close>, as \<^verbatim>\<open>posixpath\<close> has
  them: the base name is what follows the last slash; the extension starts at the last dot
  of the base name, unless only dots come before it.
\<close>

definition rfind :: "char \<Rightarrow> string \<Rightarrow> int" where
  "rfind c s =
     (if c \<in> set s then int (length s) - 1 - int (length (takeWhile (\<lambda>x. x \<noteq> c) (rev s)))
      else - 1)"

definition basename :: "string \<Rightarrow> string" where
  "basename p = drop (nat (rfind CHR ''/'' p + 1)) p"

definition splitext_root :: "string \<Rightarrow> string" where
  "splitext_root p =
     (let sepIndex = rfind CHR ''/'' p; dotIndex = rfind CHR ''.'' p
      in if dotIndex > sepIndex \<and>
            list_ex (\<lambda>c. c \<noteq> CHR ''.'') (take (nat dotIndex - nat (sepIndex + 1)) (drop (nat (sepIndex + 1)) p))
         then take (nat dotIndex) p
         else p)"

definition stem :: "string \<Rightarrow> string" where
  "stem p = splitext_root (basename p)"

section \<open>Reading the metadata of a file\<close>

text \<open>
  The library \<^verbatim>\<open>mutagen\<close> is not part of the repository; it is a parameter of the model.
  \<open>MP3\<close> gives, for a path, the number \<^verbatim>\<open>float(audio.info.length or 0.0)\<close>, or \<open>None\<close> when
  \<^verbatim>\<open>MP3(path)\<close> or the access to the length raises. \<open>EasyID3\<close> gives the tags of the file,
  a dictionary from keys to lists of strings, or \<open>None\<close> when \<^verbatim>\<open>EasyID3(path)\<close> raises (a
  file without an ID3 header, for one).
\<close>

record mutagen =
  MP3 :: "string \<Rightarrow> real option"
  EasyID3 :: "string \<Rightarrow> (string \<Rightarrow> string list option) option"

text \<open>\<^verbatim>\<open>eid.get(key, default)[0]\<close>, \<open>None\<close> for the \<^verbatim>\<open>IndexError\<close> of an empty list.\<close>

definition get_first :: "(string \<Rightarrow> string list option) \<Rightarrow> string \<Rightarrow> string list \<Rightarrow> string option" where
  "get_first eid key dflt =
     (case (case eid key of None \<Rightarrow> dflt | Some v \<Rightarrow> v) of [] \<Rightarrow> None | x # xs \<Rightarrow> Some x)"

definition clean_title :: "string \<Rightarrow> string" where
  "clean_title t =
     remove_all ''(Official Video)'' (remove_all ''(Animated Video)'' (remove_all ''(Lyrics)'' t))"

text \<open>
  \<^verbatim>\<open>read_metadata\<close>. Each \<open>None\<close> is an exception caught by one of the two handlers: the
  handler sets the title to the file name without extension and leaves the other
  variables as they are at that point.
\<close>

definition read_metadata :: "mutagen \<Rightarrow> string \<Rightarrow> string \<times> string \<times> string \<times> string \<times> real" where
  "read_metadata lib p =
     (case MP3 lib p of
        None \<Rightarrow> (stem p, '''', '''', '''', 0)
      | Some dur \<Rightarrow>
         (case EasyID3 lib p of
            None \<Rightarrow> (stem p, '''', '''', '''', dur)
          | Some eid \<Rightarrow>
             (case get_first eid ''title'' [stem p] of
                None \<Rightarrow> (stem p, '''', '''', '''', dur)
              | Some t \<Rightarrow>
                 (case get_first eid ''artist'' [''Unknown Artist''] of
                    None \<Rightarrow> (stem p, '''', '''', '''', dur)
                  | Some ar \<Rightarrow>
                     (case get_first eid ''album'' [''''] of
                        None \<Rightarrow> (stem p, ar, '''', '''', dur)
                      | Some al \<Rightarrow>
                         (case get_first eid ''genre'' [''''] of
                            None \<Rightarrow> (stem p, ar, al, '''', dur)
                          | Some ge \<Rightarrow> (clean_title t, ar, al, ge, dur)))))))"

section \<open>Loading the library\<close>

text \<open>
  \<^verbatim>\<open>LibraryPane.load\<close>. The walk over the file system is a parameter: \<open>walk\<close> gives, for the
  folders, the paths of the \<^verbatim>\<open>.mp3\<close> files found under them, in the order of \<^verbatim>\<open>os.walk\<close>.
  Every path gets a placeholder row and a placeholder track.
\<close>

definition placeholder_row :: "string \<Rightarrow> row" where
  "placeholder_row p = \<lparr>c_title = stem p, c_artist = ''Unknown Artist'', c_album = '''',
     c_genre = '''', c_duration = '''', c_path = p\<rparr>"

definition placeholder_track :: "string \<Rightarrow> Track" where
  "placeholder_track p = \<lparr>path = p, title = stem p, artist = ''Unknown Artist'', album = '''',
     genre = '''', duration = 0\<rparr>"

definition library_load :: "(string list \<Rightarrow> string list) \<Rightarrow> LibraryPane \<Rightarrow> LibraryPane" where
  "library_load walk lib =
     (let paths = walk (folders lib)
      in lib\<lparr>table := map placeholder_row paths, tracks := map placeholder_track paths\<rparr>)"

text \<open>
  The message that the metadata thread posts for one row: the arguments of the queued call
  of \<^verbatim>\<open>_update_row\<close>. The duration travels as the text
  \<^verbatim>\<open>f"{int(dur//60)}:{int(dur%60):02d}"\<close>.
\<close>

record update =
  u_row :: nat
  u_title :: string
  u_artist :: string
  u_album :: string
  u_genre :: string
  u_dur :: string

definition pad2 :: "string \<Rightarrow> string" where
  "pad2 s = replicate (2 - length s) CHR ''0'' @ s"

definition fmt_duration :: "real \<Rightarrow> string" where
  "fmt_duration dur =
     show_int \<lfloor>dur / 60\<rfloor> @ '':'' @ pad2 (show_int \<lfloor>dur - 60 * of_int \<lfloor>dur / 60\<rfloor>\<rfloor>)"

definition metadata_message :: "mutagen \<Rightarrow> nat \<Rightarrow> string \<Rightarrow> update" where
  "metadata_message lib r p =
     (case read_metadata lib p of
        (ttl, ar, al, ge, dur) \<Rightarrow>
          \<lparr>u_row = r, u_title = ttl, u_artist = ar, u_album = al, u_genre = ge, u_dur = fmt_duration dur\<rparr>)"

text \<open>
  \<^verbatim>\<open>LibraryPane._load_metadata_async\<close>, from row \<open>r\<close> on. The thread reads the length of
  \<^verbatim>\<open>_tracks\<close> while the main thread may change it: \<open>seen r\<close> is the length it reads at row
  \<open>r\<close>. The result is the list of messages it posts.
\<close>

fun load_metadata_async :: "mutagen \<Rightarrow> (nat \<Rightarrow> nat) \<Rightarrow> nat \<Rightarrow> string list \<Rightarrow> update list" where
  "load_metadata_async lib seen r [] = []"
| "load_metadata_async lib seen r (p # ps) =
     (if r \<ge> seen r then []
      else metadata_message lib r p # load_metadata_async lib seen (Suc r) ps)"

text \<open>
  \<^verbatim>\<open>int(dur_str.split(":")[0])*60 + int(dur_str.split(":")[1])\<close>, and \<open>0\<close> when any of it
  raises.
\<close>

definition parse_duration :: "string \<Rightarrow> real" where
  "parse_duration dur_str =
     (let parts = split_on CHR '':'' dur_str
      in case int_of_str (parts ! 0) of
           None \<Rightarrow> 0
         | Some a \<Rightarrow>
             if length parts < 2 then 0
             else (case int_of_str (parts ! 1) of
                     None \<Rightarrow> 0
                   | Some b \<Rightarrow> of_int (a * 60 + b)))"

text \<open>
  \<^verbatim>\<open>LibraryPane._update_row\<close>, the slot that applies a message on the main thread. The row
  is found by its number only.
\<close>

definition update_row ::
  "nat \<Rightarrow> string \<Rightarrow> string \<Rightarrow> string \<Rightarrow> string \<Rightarrow> string \<Rightarrow> LibraryPane \<Rightarrow> LibraryPane" where
  "update_row r ttl ar al ge dur_str lib =
     (if r \<ge> length (table lib) then lib
      else
        let lib1 = lib\<lparr>table := (table lib)[r := (table lib ! r)\<lparr>c_title := ttl, c_artist := ar,
                      c_album := al, c_genre := ge, c_duration := dur_str\<rparr>]\<rparr>
        in if r < length (tracks lib1)
           then lib1\<lparr>tracks := (tracks lib1)[r := (tracks lib1 ! r)\<lparr>title := ttl, artist := ar,
                      album := al, genre := ge, duration := parse_duration dur_str\<rparr>]\<rparr>
           else lib1)"

definition apply_update :: "update \<Rightarrow> LibraryPane \<Rightarrow> LibraryPane" where
  "apply_update u lib =
     update_row (u_row u) (u_title u) (u_artist u) (u_album u) (u_genre u) (u_dur u) lib"

section \<open>Timed lyrics\<close>











































section \<open>The persisted state\<close>

text \<open>
  The dictionary of one track in the state file. \<^verbatim>\<open>Track.to_dict\<close> writes all six keys;
  \<^verbatim>\<open>Track.from_dict\<close> reads each with \<^verbatim>\<open>d.get(k, "")\<close>, so a text key may be missing
  (\<open>None\<close>). The duration is a number in every file that \<^verbatim>\<open>_save_state\<close> writes; a file
  without it would put a string into the duration and is outside this model.
\<close>

record track_dict =
  d_path :: "string option"
  d_title :: "string option"
  d_artist :: "string option"
  d_album :: "string option"
  d_genre :: "string option"
  d_duration :: real

definition to_dict :: "Track \<Rightarrow> track_dict" where
  "to_dict t = \<lparr>d_path = Some (path t), d_title = Some (title t), d_artist = Some (artist t),
     d_album = Some (album t), d_genre = Some (genre t), d_duration = duration t\<rparr>"

definition get_str :: "string option \<Rightarrow> string" where
  "get_str v = (case v of None \<Rightarrow> '''' | Some x \<Rightarrow> x)"

definition from_dict :: "track_dict \<Rightarrow> Track" where
  "from_dict d = \<lparr>path = get_str (d_path d), title = get_str (d_title d),
     artist = get_str (d_artist d), album = get_str (d_album d), genre = get_str (d_genre d),
     duration = d_duration d\<rparr>"

text \<open>
  The JSON object of the state file, as \<^verbatim>\<open>json.load\<close> returns it: each of the four keys
  may be missing (\<^verbatim>\<open>data.get\<close> has a default for each), and the values under the keys
  have the types that \<^verbatim>\<open>_save_state\<close> writes (an object with a value of another type
  under one of the keys is outside this model). The file itself may be missing, or be
  unreadable: \<^verbatim>\<open>json.load\<close> raises, or returns something that is not a dictionary, so
  that the first \<^verbatim>\<open>data.get\<close> raises; \<^verbatim>\<open>_load_state\<close> catches the exception before it has
  changed anything.
\<close>

record state_file =
  f_folders :: "string list option"
  f_playlists :: "(string \<times> track_dict list) list option"
  f_queue :: "track_dict list option"
  f_play_index :: "int option"

datatype savefile = Missing | Unreadable | Saved state_file

text \<open>\<^verbatim>\<open>MainWindow._save_state\<close>: the object written to the state file.\<close>

definition save_state :: "app \<Rightarrow> state_file" where
  "save_state s = \<lparr>f_folders = Some (folders (library s)),
     f_playlists = Some (map (\<lambda>(k, v). (k, map to_dict v)) (playlists s)),
     f_queue = Some (map to_dict (queue s)),
     f_play_index = Some (play_index s)\<rparr>"

text \<open>\<^verbatim>\<open>MainWindow._load_state\<close>.\<close>

definition load_state :: "(string list \<Rightarrow> string list) \<Rightarrow> savefile \<Rightarrow> app \<Rightarrow> app" where
  "load_state walk f s =
     (case f of
        Missing \<Rightarrow> s
      | Unreadable \<Rightarrow> s
      | Saved d \<Rightarrow>
          let fo = (case f_folders d of None \<Rightarrow> [] | Some x \<Rightarrow> x);
              s1 = (if fo \<noteq> [] then s\<lparr>library := library_load walk ((library s)\<lparr>folders := fo\<rparr>)\<rparr>
                    else s);
              pls = (case f_playlists d of None \<Rightarrow> [] | Some x \<Rightarrow> x);
              s2 = foldl (\<lambda>st (name, arr). add_playlist name (map from_dict arr) st) s1 pls;
              q = (case f_queue d of None \<Rightarrow> [] | Some x \<Rightarrow> x)
          in if q \<noteq> []
             then sync_queue_table (s2\<lparr>queue := map from_dict q,
                    play_index := min (case f_play_index d of None \<Rightarrow> 0 | Some i \<Rightarrow> i)
                                      (int (length (map from_dict q)) - 1)\<rparr>)
             else s2)"

text \<open>
  \<^verbatim>\<open>MainWindow.__init__\<close>. \<open>detected\<close> is the list of the music folders that exist (the
  folder \<^verbatim>\<open>music\<close> beside the program, the user's \<^verbatim>\<open>Music\<close> folder), \<open>hist\<close> the history
  file as it is on disk. The window starts with the library of the detected folders, no
  playlists, an empty queue and the index \<open>0\<close>, and then loads the state file.
\<close>

definition init_app :: "string list \<Rightarrow> (string list \<Rightarrow> string list) \<Rightarrow> history_entry list \<Rightarrow> app" where
  "init_app detected walk hist =
     \<lparr>player = \<lparr>media = None, pstate = Idle, time_ms = 0, repeat = False\<rparr>,
      library = library_load walk \<lparr>folders = detected, table = [], tracks = []\<rparr>,
      playlists = [], queue_table = [], queue = [], play_index = 0, history_log = hist\<rparr>"

definition startup ::
  "string list \<Rightarrow> (string list \<Rightarrow> string list) \<Rightarrow> history_entry list \<Rightarrow> savefile \<Rightarrow> app" where
  "startup detected walk hist f = load_state walk f (init_app detected walk hist)"

section \<open>Example data\<close>

definition track_a :: Track where
  "track_a = \<lparr>path = ''/m/a.mp3'', title = ''a'', artist = ''Ann'', album = '''', genre = '''', duration = 0\<rparr>"

definition track_b :: Track where
  "track_b = \<lparr>path = ''/m/b.mp3'', title = ''b'', artist = ''Bob'', album = '''', genre = '''', duration = 0\<rparr>"

definition track_c :: Track where
  "track_c = \<lparr>path = ''/m/c.mp3'', title = ''c'', artist = ''Cy'', album = '''', genre = '''', duration = 0\<rparr>"

definition idle_player :: Player where
  "idle_player = \<lparr>media = None, pstate = Idle, time_ms = 0, repeat = False\<rparr>"

definition demo_library :: LibraryPane where
  "demo_library = \<lparr>folders = [''/m''], table = [], tracks = [track_a, track_b, track_c]\<rparr>"

text \<open>A window playing the second of two queued tracks, ten seconds in.\<close>

definition demo_app :: app where
  "demo_app = \<lparr>player = \<lparr>media = Some ''/m/b.mp3'', pstate = Playing, time_ms = 10000, repeat = False\<rparr>,
     library = demo_library, playlists = [], queue_table = [Some track_a, Some track_b],
     queue = [track_a, track_b], play_index = 1, history_log = []\<rparr>"

text \<open>A window that has not played anything yet, and a track that is not in the library.\<close>

definition demo_idle :: app where
  "demo_idle = \<lparr>player = idle_player, library = demo_library, playlists = [], queue_table = [],
     queue = [], play_index = 0, history_log = []\<rparr>"

definition track_x :: Track where
  "track_x = \<lparr>path = ''/elsewhere/x.mp3'', title = ''x'', artist = ''Xi'', album = '''',
     genre = '''', duration = 0\<rparr>"

text \<open>The example window at the first of its two tracks, and with repeat switched on.\<close>

definition demo_first :: app where
  "demo_first = demo_app\<lparr>play_index := 0\<rparr>"

definition demo_repeat :: app where
  "demo_repeat = demo_app\<lparr>player := toggle_repeat (player demo_app)\<rparr>"

text \<open>A history file with the given artists, in that order.\<close>

definition hist :: "string list \<Rightarrow> history_entry list" where
  "hist as = map (\<lambda>a. \<lparr>h_path = '''', h_title = '''', h_artist = a\<rparr>) as"

text \<open>A lyrics panel with two timed lines and nothing highlighted yet.\<close>

definition demo_panel :: LyricsPanel where
  "demo_panel = \<lparr>lines = [(10, ''one''), (20, ''two'')], idx = - 1\<rparr>"

text \<open>
  Three behaviours of the tag library: a file with a length but without an ID3 header, a
  file that cannot be opened as MP3, and a file with tags whose album frame is empty.
\<close>

definition untagged_lib :: mutagen where
  "untagged_lib = \<lparr>MP3 = (\<lambda>p. Some 180), EasyID3 = (\<lambda>p. None)\<rparr>"

definition broken_lib :: mutagen where
  "broken_lib = \<lparr>MP3 = (\<lambda>p. None), EasyID3 = (\<lambda>p. None)\<rparr>"

definition tagged_lib :: mutagen where
  "tagged_lib = \<lparr>MP3 = (\<lambda>p. Some 200),
     EasyID3 = (\<lambda>p. Some [''title'' \<mapsto> [''Song (Lyrics)''], ''artist'' \<mapsto> [''Ann''], ''album'' \<mapsto> []])\<rparr>"

text \<open>
  A library that is rescanned while its metadata is loading. The first scan finds
  \<^verbatim>\<open>a.mp3\<close> and \<^verbatim>\<open>b.mp3\<close>; the metadata thread reads \<^verbatim>\<open>a.mp3\<close> and posts the update of
  row \<open>0\<close>; before the update is applied, \<^verbatim>\<open>a.mp3\<close> is deleted and a rescan finds
  \<^verbatim>\<open>b.mp3\<close> alone.
\<close>

definition song_lib :: mutagen where
  "song_lib = \<lparr>MP3 = (\<lambda>p. Some 187),
     EasyID3 = (\<lambda>p. Some [''title'' \<mapsto> [''Song A''], ''artist'' \<mapsto> [''Ann'']])\<rparr>"

definition first_scan :: LibraryPane where
  "first_scan = library_load (\<lambda>fs. [''/m/a.mp3'', ''/m/b.mp3''])
     \<lparr>folders = [''/m''], table = [], tracks = []\<rparr>"

definition late_update :: update where
  "late_update = hd (load_metadata_async song_lib (\<lambda>r. length (tracks first_scan)) 0 [''/m/a.mp3'', ''/m/b.mp3''])"

definition rescan :: LibraryPane where
  "rescan = library_load (\<lambda>fs. [''/m/b.mp3'']) first_scan"

text \<open>
  The example window with one playlist, and a window started where no music folder
  exists and nothing was ever added.
\<close>

definition demo_saved :: app where
  "demo_saved = demo_app\<lparr>playlists := [(''mix'', [track_a, track_c])]\<rparr>"

definition demo_bare :: app where
  "demo_bare = init_app [] (\<lambda>fs. []) []"


section \<open>Properties\<close>

lemma getitem_valid: "0 \<le> i \<Longrightarrow> i < int (length xs) \<Longrightarrow> getitem xs i = Inr (xs ! nat i)"
  by (simp add: getitem_def)

lemma play_current_valid:
  assumes "0 \<le> play_index s" "play_index s < int (length (queue s))"
  shows "play_current s =
     Inr (log_play (queue s ! nat (play_index s))
       (sync_queue_table (s\<lparr>player := play (load (path (queue s ! nat (play_index s))) (player s))\<rparr>)))"
  using assms by (auto simp: play_current_def getitem_valid)

lemma play_current_keeps:
  assumes "0 \<le> play_index s" "play_index s < int (length (queue s))"
  obtains s' where "play_current s = Inr s'" "queue s' = queue s" "play_index s' = play_index s"
    "library s' = library s" "playlists s' = playlists s"
    "player s' = play (load (path (queue s ! nat (play_index s))) (player s))"
  using play_current_valid[OF assms] by (simp add: log_play_def sync_queue_table_def)

subsection \<open>Advancing the play index\<close>

lemma next_track_valid:
  assumes "queue s \<noteq> []" "0 \<le> play_index s" "play_index s < int (length (queue s))"
  obtains s' where "next_track s = Inr s'" "queue s' = queue s"
    "play_index s' = min (int (length (queue s)) - 1) (play_index s + 1)"
    "player s' = play (load (path (queue s ! nat (min (int (length (queue s)) - 1) (play_index s + 1)))) (player s))"
proof -
  let ?s1 = "s\<lparr>play_index := min (int (length (queue s)) - 1) (play_index s + 1)\<rparr>"
  have v: "0 \<le> play_index ?s1" "play_index ?s1 < int (length (queue ?s1))"
    using assms by auto
  from play_current_keeps[OF v] obtain s' where "play_current ?s1 = Inr s'" "queue s' = queue ?s1"
    "play_index s' = play_index ?s1" "player s' = play (load (path (queue ?s1 ! nat (play_index ?s1))) (player ?s1))"
    by blast
  then show ?thesis using assms(1) that by (simp add: next_track_def)
qed

lemma next_track_times_valid:
  "queue s \<noteq> [] \<Longrightarrow> 0 \<le> play_index s \<Longrightarrow> play_index s < int (length (queue s)) \<Longrightarrow>
   \<exists>s'. next_track_times n s = Inr s' \<and> queue s' = queue s \<and>
        play_index s' = min (int (length (queue s)) - 1) (play_index s + int n)"
proof (induction n arbitrary: s)
  case 0
  then show ?case by simp
next
  case (Suc n)
  from next_track_valid[OF Suc.prems] obtain s1 where s1: "next_track s = Inr s1" "queue s1 = queue s"
    "play_index s1 = min (int (length (queue s)) - 1) (play_index s + 1)" by blast
  have "queue s1 \<noteq> []" "0 \<le> play_index s1" "play_index s1 < int (length (queue s1))"
    using s1 Suc.prems by auto
  from Suc.IH[OF this] obtain s' where "next_track_times n s1 = Inr s'" "queue s' = queue s1"
    "play_index s' = min (int (length (queue s1)) - 1) (play_index s1 + int n)" by blast
  then show ?case using s1 by auto
qed

lemma prev_track_valid:
  assumes "queue s \<noteq> []" "0 \<le> play_index s" "play_index s < int (length (queue s))"
    "get_position_seconds (player s) \<le> 3"
  obtains s' where "prev_track s = Inr s'" "queue s' = queue s"
    "play_index s' = max 0 (play_index s - 1)"
proof -
  let ?s1 = "s\<lparr>play_index := max 0 (play_index s - 1)\<rparr>"
  have v: "0 \<le> play_index ?s1" "play_index ?s1 < int (length (queue ?s1))"
    using assms by auto
  from play_current_keeps[OF v] obtain s' where "play_current ?s1 = Inr s'" "queue s' = queue ?s1"
    "play_index s' = play_index ?s1"
    by blast
  then show ?thesis using assms(1,4) that by (simp add: prev_track_def)
qed

text \<open>
  Claim C5, as the code has it. On a non-empty queue with a valid index, \<^verbatim>\<open>next_track\<close>
  moves the index by \<open>+1\<close>, stopping at the last position, and leaves the queue as it is.
  \<^verbatim>\<open>prev_track\<close> moves it by \<open>-1\<close>, stopping at \<open>0\<close>, when the playback position is at most
  three seconds; further into the track it seeks to the start of the track and leaves the
  index where it is. Pressing next as many times as the queue is long ends at the last
  position from every valid start, and previous at index \<open>0\<close> leaves the index at \<open>0\<close>.
  Nothing wraps around.
\<close>

theorem advance_clamped:
  assumes "queue s \<noteq> []" "0 \<le> play_index s" "play_index s < int (length (queue s))"
  shows "(\<exists>s'. next_track s = Inr s' \<and> queue s' = queue s \<and>
            play_index s' = min (int (length (queue s)) - 1) (play_index s + 1))
    \<and> (get_position_seconds (player s) \<le> 3 \<longrightarrow>
          (\<exists>s'. prev_track s = Inr s' \<and> queue s' = queue s \<and>
             play_index s' = max 0 (play_index s - 1)))
    \<and> (get_position_seconds (player s) > 3 \<longrightarrow>
          prev_track s = Inr (s\<lparr>player := seek_seconds 0 (player s)\<rparr>))
    \<and> (\<exists>s'. next_track_times (length (queue s)) s = Inr s' \<and> queue s' = queue s \<and>
            play_index s' = int (length (queue s)) - 1)
    \<and> (play_index s = 0 \<longrightarrow> (\<exists>s'. prev_track s = Inr s' \<and> play_index s' = 0))"
proof (intro conjI impI)
  show "\<exists>s'. next_track s = Inr s' \<and> queue s' = queue s \<and>
            play_index s' = min (int (length (queue s)) - 1) (play_index s + 1)"
    using next_track_valid[OF assms] by metis
  show "\<exists>s'. prev_track s = Inr s' \<and> queue s' = queue s \<and> play_index s' = max 0 (play_index s - 1)"
    if "get_position_seconds (player s) \<le> 3"
    using prev_track_valid[OF assms that] by metis
  show "prev_track s = Inr (s\<lparr>player := seek_seconds 0 (player s)\<rparr>)"
    if "get_position_seconds (player s) > 3"
    using that assms(1) by (simp add: prev_track_def)
  show "\<exists>s'. next_track_times (length (queue s)) s = Inr s' \<and> queue s' = queue s \<and>
            play_index s' = int (length (queue s)) - 1"
    using next_track_times_valid[OF assms, of "length (queue s)"] assms(2) by auto
  show "\<exists>s'. prev_track s = Inr s' \<and> play_index s' = 0" if z: "play_index s = 0"
  proof (cases "get_position_seconds (player s) \<le> 3")
    case True
    from prev_track_valid[OF assms True] show ?thesis using z by auto
  next
    case False
    then show ?thesis using assms(1) z by (simp add: prev_track_def)
  qed
qed

text \<open>
  The theorem at the example window: two tracks queued, the second one playing, ten
  seconds in.
\<close>

theorem advance_clamped_witness:
  "queue demo_app \<noteq> [] \<and> 0 \<le> play_index demo_app
   \<and> play_index demo_app < int (length (queue demo_app))
   \<and> get_position_seconds (player demo_app) > 3
   \<and> prev_track demo_app = Inr (demo_app\<lparr>player := seek_seconds 0 (player demo_app)\<rparr>)
   \<and> (\<exists>s'. next_track_times (length (queue demo_app)) demo_app = Inr s' \<and>
          queue s' = queue demo_app \<and> play_index s' = int (length (queue demo_app)) - 1)"
proof -
  have h: "queue demo_app \<noteq> []" "0 \<le> play_index demo_app"
    "play_index demo_app < int (length (queue demo_app))"
    by (simp_all add: demo_app_def)
  have p: "get_position_seconds (player demo_app) > 3"
    by (simp add: demo_app_def get_position_seconds_def)
  show ?thesis using h p advance_clamped[OF h] by blast
qed

text \<open>
  As claim C5 states it, previous always moves the index by \<open>-1\<close> (clamped). At the example
  window the index is \<open>1\<close> and the position ten seconds: \<^verbatim>\<open>prev_track\<close> leaves the index at
  \<open>1\<close>, not at \<open>0\<close>.
\<close>

theorem prev_track_counterexample:
  "map_sum id play_index (prev_track demo_app) = Inr 1
   \<and> map_sum id play_index (prev_track demo_app) \<noteq> Inr (max 0 (play_index demo_app - 1))"
  by (simp add: prev_track_def demo_app_def get_position_seconds_def)

subsection \<open>Playing a track of the library\<close>

lemma first_index_Some:
  "first_index p xs = Some k \<longleftrightarrow>
     k < length xs \<and> path (xs ! k) = p \<and> (\<forall>j<k. path (xs ! j) \<noteq> p)"
proof (induction xs arbitrary: k)
  case Nil
  then show ?case by simp
next
  case (Cons x xs)
  show ?case
  proof (cases "path x = p")
    case True
    then show ?thesis by (cases k) auto
  next
    case False
    show ?thesis
    proof (cases k)
      case 0
      then show ?thesis using False by auto
    next
      case (Suc m)
      have "(\<forall>j<Suc m. path ((x # xs) ! j) \<noteq> p) \<longleftrightarrow> (\<forall>j<m. path (xs ! j) \<noteq> p)"
        using False by (auto simp: less_Suc_eq_0_disj)
      then show ?thesis using False Suc Cons.IH[of m] by auto
    qed
  qed
qed

lemma first_index_None: "first_index p xs = None \<longleftrightarrow> p \<notin> path ` set xs"
  by (induction xs) auto

lemma play_track_queue:
  assumes "q = (case first_index (path t) (tracks (library s)) of
                 Some i \<Rightarrow> drop i (tracks (library s)) @ take i (tracks (library s))
               | None \<Rightarrow> [t])" "q \<noteq> []"
  shows "\<exists>s'. play_track t s = Inr s' \<and> queue s' = q \<and> play_index s' = 0"
proof -
  let ?s1 = "s\<lparr>queue := q, play_index := 0\<rparr>"
  have v: "0 \<le> play_index ?s1" "play_index ?s1 < int (length (queue ?s1))"
    using assms(2) by auto
  from play_current_keeps[OF v] obtain s' where "play_current ?s1 = Inr s'" "queue s' = q"
    "play_index s' = 0" by auto
  then show ?thesis using assms(1) by (simp add: play_track_def sync_queue_table_def Let_def)
qed

text \<open>
  Claim C4. \<^verbatim>\<open>play_track\<close> looks the track up by its path, at the first index \<open>k\<close> of the
  catalog that has the path: the queue becomes \<^verbatim>\<open>catalog[k:] + catalog[:k]\<close> and the index \<open>0\<close>.
  In a catalog whose paths are distinct (the path is the identity of a track), the
  \<open>k\<close>-th element is found at \<open>k\<close>. A track whose path is not in the catalog gives the queue
  \<open>[t]\<close> and the index \<open>0\<close>.
\<close>

theorem play_track_rotates:
  "(k < length (tracks (library s)) \<and> path (tracks (library s) ! k) = path t \<and>
      (\<forall>j<k. path (tracks (library s) ! j) \<noteq> path t) \<longrightarrow>
      (\<exists>s'. play_track t s = Inr s' \<and>
         queue s' = drop k (tracks (library s)) @ take k (tracks (library s)) \<and> play_index s' = 0))
   \<and> (distinct (map path (tracks (library s))) \<and> k < length (tracks (library s)) \<and>
        t = tracks (library s) ! k \<longrightarrow>
      (\<exists>s'. play_track t s = Inr s' \<and>
         queue s' = drop k (tracks (library s)) @ take k (tracks (library s)) \<and> play_index s' = 0))
   \<and> (path t \<notin> path ` set (tracks (library s)) \<longrightarrow>
      (\<exists>s'. play_track t s = Inr s' \<and> queue s' = [t] \<and> play_index s' = 0))"
proof -
  let ?c = "tracks (library s)"
  have first: "\<exists>s'. play_track t s = Inr s' \<and> queue s' = drop k ?c @ take k ?c \<and> play_index s' = 0"
    if "first_index (path t) ?c = Some k" for k
  proof -
    have "k < length ?c" using that by (simp add: first_index_Some)
    then have "drop k ?c @ take k ?c \<noteq> []" by simp
    then show ?thesis using play_track_queue[of "drop k ?c @ take k ?c" t s] that by simp
  qed
  have a: "\<exists>s'. play_track t s = Inr s' \<and> queue s' = drop k ?c @ take k ?c \<and> play_index s' = 0"
    if "k < length ?c \<and> path (?c ! k) = path t \<and> (\<forall>j<k. path (?c ! j) \<noteq> path t)"
    using first that by (simp add: first_index_Some)
  have b: "\<exists>s'. play_track t s = Inr s' \<and> queue s' = drop k ?c @ take k ?c \<and> play_index s' = 0"
    if h: "distinct (map path ?c) \<and> k < length ?c \<and> t = ?c ! k"
  proof -
    have "path (?c ! j) \<noteq> path t" if "j < k" for j
    proof -
      have "j < length (map path ?c)" "k < length (map path ?c)" "j \<noteq> k"
        using h that by simp_all
      with h have "map path ?c ! j \<noteq> map path ?c ! k"
        by (metis nth_eq_iff_index_eq)
      then show ?thesis using h that by simp
    qed
    then show ?thesis using a h by simp
  qed
  have c: "\<exists>s'. play_track t s = Inr s' \<and> queue s' = [t] \<and> play_index s' = 0"
    if "path t \<notin> path ` set ?c"
    using play_track_queue[of "[t]" t s] that by (simp add: first_index_None[symmetric])
  show ?thesis using a b c by blast
qed

text \<open>
  The theorem at the example library \<open>[a, b, c]\<close>: playing \<open>b\<close> queues \<open>[b, c, a]\<close>, playing a
  track from elsewhere queues that track alone.
\<close>

theorem play_track_rotates_witness:
  "distinct (map path (tracks (library demo_idle))) \<and> 1 < length (tracks (library demo_idle))
   \<and> track_b = tracks (library demo_idle) ! 1
   \<and> path (tracks (library demo_idle) ! 0) \<noteq> path track_b
   \<and> path track_x \<notin> path ` set (tracks (library demo_idle))
   \<and> (\<exists>s'. play_track track_b demo_idle = Inr s' \<and> queue s' = [track_b, track_c, track_a] \<and>
          play_index s' = 0)
   \<and> (\<exists>s'. play_track track_x demo_idle = Inr s' \<and> queue s' = [track_x] \<and> play_index s' = 0)"
proof -
  have d: "distinct (map path (tracks (library demo_idle)))" "1 < length (tracks (library demo_idle))"
    "track_b = tracks (library demo_idle) ! 1"
    "path (tracks (library demo_idle) ! 0) \<noteq> path track_b"
    by (simp_all add: demo_idle_def demo_library_def track_a_def track_b_def track_c_def)
  have x: "path track_x \<notin> path ` set (tracks (library demo_idle))"
    by (simp add: demo_idle_def demo_library_def track_a_def track_b_def track_c_def track_x_def)
  have r: "drop 1 (tracks (library demo_idle)) @ take 1 (tracks (library demo_idle))
      = [track_b, track_c, track_a]"
    by (simp add: demo_idle_def demo_library_def)
  have f: "\<forall>j<1. path (tracks (library demo_idle) ! j) \<noteq> path track_b"
    using d(4) by simp
  from play_track_rotates[of 1 demo_idle track_b] d f
  have 1: "\<exists>s'. play_track track_b demo_idle = Inr s' \<and> queue s' = [track_b, track_c, track_a] \<and>
          play_index s' = 0" unfolding r by blast
  from play_track_rotates[of 1 demo_idle track_x] x
  have 2: "\<exists>s'. play_track track_x demo_idle = Inr s' \<and> queue s' = [track_x] \<and> play_index s' = 0"
    by blast
  show ?thesis using d x 1 2 by blast
qed

subsection \<open>Rebuilding the queue after a manual reorder\<close>

text \<open>
  Claim C6. The external order is the list of tracks that the rows of the queue table
  carry. When it is empty, \<^verbatim>\<open>_rebuild_queue_from_table\<close> changes nothing: queue, order and
  index stay. When it is not, the queue becomes that list, nothing but the queue and the
  index changes, the index is the old one cut down to the last position of the new queue
  (so it stays when it still fits), and a valid old index gives a valid new one.
\<close>

theorem rebuild_queue:
  "(List.map_filter id (queue_table s) = [] \<longrightarrow> rebuild_queue_from_table s = s)
   \<and> (List.map_filter id (queue_table s) \<noteq> [] \<longrightarrow>
        rebuild_queue_from_table s =
          s\<lparr>queue := List.map_filter id (queue_table s),
            play_index := min (play_index s) (int (length (List.map_filter id (queue_table s))) - 1)\<rparr>
        \<and> (play_index s < int (length (List.map_filter id (queue_table s))) \<longrightarrow>
             play_index (rebuild_queue_from_table s) = play_index s)
        \<and> (0 \<le> play_index s \<longrightarrow>
             0 \<le> play_index (rebuild_queue_from_table s) \<and>
             play_index (rebuild_queue_from_table s) < int (length (queue (rebuild_queue_from_table s)))))"
  by (auto simp: rebuild_queue_from_table_def Let_def)

text \<open>
  The theorem at the example window, once with an empty table and once with a table of
  one row: the two-track queue shrinks to one track and the index \<open>1\<close> is cut down to \<open>0\<close>.
\<close>

theorem rebuild_queue_witness:
  "List.map_filter id (queue_table (demo_app\<lparr>queue_table := []\<rparr>)) = []
   \<and> rebuild_queue_from_table (demo_app\<lparr>queue_table := []\<rparr>) = demo_app\<lparr>queue_table := []\<rparr>
   \<and> List.map_filter id (queue_table (demo_app\<lparr>queue_table := [Some track_c]\<rparr>)) \<noteq> []
   \<and> 0 \<le> play_index (demo_app\<lparr>queue_table := [Some track_c]\<rparr>)
   \<and> queue (rebuild_queue_from_table (demo_app\<lparr>queue_table := [Some track_c]\<rparr>)) = [track_c]
   \<and> play_index (rebuild_queue_from_table (demo_app\<lparr>queue_table := [Some track_c]\<rparr>)) = 0"
proof -
  have e: "List.map_filter id (queue_table (demo_app\<lparr>queue_table := []\<rparr>)) = []"
    by simp
  have n: "List.map_filter id (queue_table (demo_app\<lparr>queue_table := [Some track_c]\<rparr>)) = [track_c]"
    by simp
  have i: "play_index demo_app = 1" by (simp add: demo_app_def)
  from rebuild_queue[of "demo_app\<lparr>queue_table := []\<rparr>"] e
  have 1: "rebuild_queue_from_table (demo_app\<lparr>queue_table := []\<rparr>) = demo_app\<lparr>queue_table := []\<rparr>"
    by blast
  from rebuild_queue[of "demo_app\<lparr>queue_table := [Some track_c]\<rparr>"]
  have 2: "rebuild_queue_from_table (demo_app\<lparr>queue_table := [Some track_c]\<rparr>) =
     demo_app\<lparr>queue_table := [Some track_c], queue := [track_c], play_index := min 1 0\<rparr>"
    unfolding n using i by simp
  show ?thesis using e 1 unfolding n 2 using i by simp
qed

subsection \<open>The end of a track\<close>

lemma play_load: "media (play (load p pl)) = Some p \<and> pstate (play (load p pl)) = Playing
    \<and> time_ms (play (load p pl)) = 0 \<and> repeat (play (load p pl)) = repeat pl"
  by (simp add: play_def load_def)

text \<open>
  Claim C1, as the code has it. When the engine signals the end of the track and repeat
  is on, the player seeks to \<open>0\<close> and plays: same track, queue and index untouched. When
  repeat is off and a next track exists, the index moves on by one and that track is
  loaded and played. When the current track is the last of the queue, the index stays and
  the last track is loaded and played again from its start: the player ends in the state
  playing, not in loaded-paused.
\<close>

theorem end_of_track:
  assumes "queue s \<noteq> []" "0 \<le> play_index s" "play_index s < int (length (queue s))"
  shows
   "(repeat (player s) \<longrightarrow>
        on_end s = Inr (s\<lparr>player := play (seek_seconds 0 (player s))\<rparr>)
        \<and> (media (player s) \<noteq> None \<longrightarrow>
             play (seek_seconds 0 (player s)) = (player s)\<lparr>time_ms := 0, pstate := Playing\<rparr>))
    \<and> (\<not> repeat (player s) \<and> play_index s + 1 < int (length (queue s)) \<longrightarrow>
         (\<exists>s'. on_end s = Inr s' \<and> queue s' = queue s \<and> play_index s' = play_index s + 1 \<and>
               player s' = play (load (path (queue s ! nat (play_index s + 1))) (player s)) \<and>
               media (player s') = Some (path (queue s ! nat (play_index s + 1))) \<and>
               pstate (player s') = Playing))
    \<and> (\<not> repeat (player s) \<and> play_index s + 1 = int (length (queue s)) \<longrightarrow>
         (\<exists>s'. on_end s = Inr s' \<and> queue s' = queue s \<and> play_index s' = play_index s \<and>
               player s' = play (load (path (queue s ! nat (play_index s))) (player s)) \<and>
               media (player s') = Some (path (queue s ! nat (play_index s))) \<and>
               pstate (player s') = Playing \<and> time_ms (player s') = 0))"
proof (intro conjI impI)
  assume "repeat (player s)"
  then show "on_end s = Inr (s\<lparr>player := play (seek_seconds 0 (player s))\<rparr>)"
    by (simp add: on_end_def)
next
  assume "media (player s) \<noteq> None"
  then show "play (seek_seconds 0 (player s)) = (player s)\<lparr>time_ms := 0, pstate := Playing\<rparr>"
    by (auto simp: play_def seek_seconds_def py_int_def)
next
  assume h: "\<not> repeat (player s) \<and> play_index s + 1 < int (length (queue s))"
  from next_track_valid[OF assms] obtain s' where s': "next_track s = Inr s'" "queue s' = queue s"
    "play_index s' = min (int (length (queue s)) - 1) (play_index s + 1)"
    "player s' = play (load (path (queue s ! nat (min (int (length (queue s)) - 1) (play_index s + 1)))) (player s))"
    by blast
  have m: "min (int (length (queue s)) - 1) (play_index s + 1) = play_index s + 1"
    using h by simp
  show "\<exists>s'. on_end s = Inr s' \<and> queue s' = queue s \<and> play_index s' = play_index s + 1 \<and>
               player s' = play (load (path (queue s ! nat (play_index s + 1))) (player s)) \<and>
               media (player s') = Some (path (queue s ! nat (play_index s + 1))) \<and>
               pstate (player s') = Playing"
    using s' h unfolding m by (simp add: on_end_def on_track_end_def play_load)
next
  assume h: "\<not> repeat (player s) \<and> play_index s + 1 = int (length (queue s))"
  from next_track_valid[OF assms] obtain s' where s': "next_track s = Inr s'" "queue s' = queue s"
    "play_index s' = min (int (length (queue s)) - 1) (play_index s + 1)"
    "player s' = play (load (path (queue s ! nat (min (int (length (queue s)) - 1) (play_index s + 1)))) (player s))"
    by blast
  have m: "min (int (length (queue s)) - 1) (play_index s + 1) = play_index s"
    using h by simp
  show "\<exists>s'. on_end s = Inr s' \<and> queue s' = queue s \<and> play_index s' = play_index s \<and>
               player s' = play (load (path (queue s ! nat (play_index s))) (player s)) \<and>
               media (player s') = Some (path (queue s ! nat (play_index s))) \<and>
               pstate (player s') = Playing \<and> time_ms (player s') = 0"
    using s' h unfolding m by (simp add: on_end_def on_track_end_def play_load)
qed

text \<open>
  The theorem at the example window: at the last track, at the first track, and with
  repeat on.
\<close>

theorem end_of_track_witness:
  "queue demo_app \<noteq> [] \<and> 0 \<le> play_index demo_app \<and> play_index demo_app < int (length (queue demo_app))
   \<and> \<not> repeat (player demo_app) \<and> play_index demo_app + 1 = int (length (queue demo_app))
   \<and> (\<exists>s'. on_end demo_app = Inr s' \<and> queue s' = queue demo_app \<and> play_index s' = 1 \<and>
         media (player s') = Some ''/m/b.mp3'' \<and> pstate (player s') = Playing)
   \<and> queue demo_first \<noteq> [] \<and> 0 \<le> play_index demo_first
   \<and> \<not> repeat (player demo_first) \<and> play_index demo_first + 1 < int (length (queue demo_first))
   \<and> (\<exists>s'. on_end demo_first = Inr s' \<and> play_index s' = 1 \<and>
         media (player s') = Some ''/m/b.mp3'' \<and> pstate (player s') = Playing)
   \<and> repeat (player demo_repeat) \<and> media (player demo_repeat) \<noteq> None
   \<and> on_end demo_repeat = Inr (demo_repeat\<lparr>player := (player demo_repeat)\<lparr>time_ms := 0, pstate := Playing\<rparr>\<rparr>)"
proof -
  have a: "queue demo_app \<noteq> []" "0 \<le> play_index demo_app"
    "play_index demo_app < int (length (queue demo_app))"
    "\<not> repeat (player demo_app)" "play_index demo_app + 1 = int (length (queue demo_app))"
    by (simp_all add: demo_app_def)
  have b: "queue demo_first \<noteq> []" "0 \<le> play_index demo_first"
    "play_index demo_first < int (length (queue demo_first))"
    "\<not> repeat (player demo_first)" "play_index demo_first + 1 < int (length (queue demo_first))"
    by (simp_all add: demo_first_def demo_app_def)
  have c: "queue demo_repeat \<noteq> []" "0 \<le> play_index demo_repeat"
    "play_index demo_repeat < int (length (queue demo_repeat))"
    "repeat (player demo_repeat)" "media (player demo_repeat) \<noteq> None"
    by (simp_all add: demo_repeat_def demo_app_def toggle_repeat_def)
  have pa: "play_index demo_app = 1" "path (queue demo_app ! nat 1) = ''/m/b.mp3''"
    by (simp_all add: demo_app_def track_b_def)
  have pb: "play_index demo_first = 0" "path (queue demo_first ! nat (0 + 1)) = ''/m/b.mp3''"
    by (simp_all add: demo_first_def demo_app_def track_b_def)
  from end_of_track[OF a(1-3)] a(4,5)
  have 1: "\<exists>s'. on_end demo_app = Inr s' \<and> queue s' = queue demo_app \<and> play_index s' = 1 \<and>
         media (player s') = Some ''/m/b.mp3'' \<and> pstate (player s') = Playing"
    unfolding pa by blast
  from end_of_track[OF b(1-3)] b(4,5)
  have 2: "\<exists>s'. on_end demo_first = Inr s' \<and> play_index s' = 1 \<and>
         media (player s') = Some ''/m/b.mp3'' \<and> pstate (player s') = Playing"
    unfolding pb by auto
  from end_of_track[OF c(1-3)] c(4,5)
  have 3: "on_end demo_repeat = Inr (demo_repeat\<lparr>player := (player demo_repeat)\<lparr>time_ms := 0, pstate := Playing\<rparr>\<rparr>)"
    by simp
  show ?thesis using a b c 1 2 3 by blast
qed

text \<open>
  As claim C1 states it, the end of the last track leaves the player loaded and paused.
  At the example window (second of two tracks, repeat off) the player is playing after
  \<^verbatim>\<open>_on_end\<close>.
\<close>

theorem end_of_queue_counterexample:
  "play_index demo_app + 1 = int (length (queue demo_app)) \<and> \<not> repeat (player demo_app)
   \<and> map_sum id (\<lambda>s'. pstate (player s')) (on_end demo_app) = Inr Playing
   \<and> map_sum id (\<lambda>s'. pstate (player s')) (on_end demo_app) \<noteq> Inr LoadedPaused"
  by (simp add: on_end_def on_track_end_def next_track_def play_current_def getitem_def
      demo_app_def log_play_def sync_queue_table_def play_def load_def)

subsection \<open>The recommender\<close>

lemma first_seen_snoc:
  "first_seen (xs @ [x]) = (if x \<in> set xs then first_seen xs else first_seen xs @ [x])"
  by (simp add: first_seen_def)

lemma set_first_seen: "set (first_seen xs) = set xs"
  by (simp add: first_seen_def)

lemma distinct_first_seen: "distinct (first_seen xs)"
  by (simp add: first_seen_def)

lemma map_default_counts:
  "distinct L \<Longrightarrow>
   AList.map_default x 1 Suc (map (\<lambda>a. (a, g a)) L) =
     (if x \<in> set L then map (\<lambda>a. (a, if a = x then Suc (g a) else g a)) L
      else map (\<lambda>a. (a, g a)) L @ [(x, 1)])"
  by (induction L) auto

lemma Counter_snoc: "Counter (xs @ [x]) = AList.map_default x 1 Suc (Counter xs)"
  by (simp add: Counter_def)

lemma Counter_eq: "Counter xs = map (\<lambda>a. (a, count_list xs a)) (first_seen xs)"
proof (induction xs rule: rev_induct)
  case Nil
  then show ?case by (simp add: Counter_def first_seen_def)
next
  case (snoc x xs)
  show ?case
  proof (cases "x \<in> set xs")
    case True
    then show ?thesis
      using snoc map_default_counts[OF distinct_first_seen, of x "count_list xs" xs]
      by (simp add: Counter_snoc first_seen_snoc set_first_seen)
  next
    case False
    then show ?thesis
      using snoc map_default_counts[OF distinct_first_seen, of x "count_list xs" xs]
      by (auto simp add: Counter_snoc first_seen_snoc set_first_seen)
  qed
qed

lemma insort_key_map:
  "insort_key f (g x) (map g ys) = map g (insort_key (\<lambda>a. f (g a)) x ys)"
  by (induction ys) auto

lemma sort_key_map: "sort_key f (map g xs) = map g (sort_key (\<lambda>a. f (g a)) xs)"
  by (induction xs) (auto simp: insort_key_map)

lemma most_common_Counter:
  "most_common n (Counter xs) =
     map (\<lambda>a. (a, count_list xs a)) (take n (sort_key (\<lambda>a. - int (count_list xs a)) (first_seen xs)))"
  by (simp add: most_common_def Counter_eq sort_key_map take_map)

lemma top_artists_eq:
  "top_artists data =
     map (\<lambda>a. (a, count_list (map h_artist (filter (\<lambda>d. h_artist d \<noteq> '''') data)) a))
       (spec_top3 (map h_artist (filter (\<lambda>d. h_artist d \<noteq> '''') data)))"
  by (simp add: top_artists_def most_common_Counter spec_top3_def)

lemma distinct_spec_top3: "distinct (spec_top3 as)"
  by (simp add: spec_top3_def distinct_first_seen)

lemma mset_filter_disjoint:
  "(\<And>x. \<not> (P x \<and> Q x)) \<Longrightarrow>
   mset (filter P xs) + mset (filter Q xs) = mset (filter (\<lambda>x. P x \<or> Q x) xs)"
  by (induction xs) auto

lemma mset_groups:
  "distinct tops \<Longrightarrow>
   mset (concat (map (\<lambda>a. filter (\<lambda>t. f t = a) cat) tops)) = mset (filter (\<lambda>t. f t \<in> set tops) cat)"
proof (induction tops)
  case Nil
  then show ?case by simp
next
  case (Cons a tops)
  have "mset (filter (\<lambda>t. f t = a) cat) + mset (filter (\<lambda>t. f t \<in> set tops) cat)
      = mset (filter (\<lambda>t. f t = a \<or> f t \<in> set tops) cat)"
    using Cons.prems by (intro mset_filter_disjoint) auto
  then show ?case using Cons by simp
qed

lemma filter_groups:
  "distinct tops \<Longrightarrow>
   filter (\<lambda>t. f t = b) (concat (map (\<lambda>a. filter (\<lambda>t. f t = a) cat) tops)) =
     (if b \<in> set tops then filter (\<lambda>t. f t = b) cat else [])"
proof (induction tops)
  case Nil
  then show ?case by simp
next
  case (Cons a tops)
  have 1: "filter (\<lambda>t. f t = b) (filter (\<lambda>t. f t = a) cat) = (if a = b then filter (\<lambda>t. f t = b) cat else [])"
    by (induction cat) auto
  show ?case using Cons 1 by auto
qed

text \<open>
  The ranking of the specification is a permutation of the artists of the history, sorted
  by descending count, and artists with the same count keep the order in which the
  history first names them.
\<close>

lemma spec_rank_sorted_stable:
  "mset (sort_key (\<lambda>a. - int (count_list as a)) (first_seen as)) = mset (first_seen as)"
  "sorted (map (\<lambda>a. - int (count_list as a)) (sort_key (\<lambda>a. - int (count_list as a)) (first_seen as)))"
  "filter (\<lambda>a. count_list as a = k) (sort_key (\<lambda>a. - int (count_list as a)) (first_seen as))
     = filter (\<lambda>a. count_list as a = k) (first_seen as)"
proof -
  show "mset (sort_key (\<lambda>a. - int (count_list as a)) (first_seen as)) = mset (first_seen as)"
    by simp
  show "sorted (map (\<lambda>a. - int (count_list as a)) (sort_key (\<lambda>a. - int (count_list as a)) (first_seen as)))"
    by simp
  have "filter (\<lambda>a. - int (count_list as a) = - int k) (sort_key (\<lambda>a. - int (count_list as a)) (first_seen as))
     = filter (\<lambda>a. - int (count_list as a) = - int k) (first_seen as)"
    by (rule sort_key_stable)
  then show "filter (\<lambda>a. count_list as a = k) (sort_key (\<lambda>a. - int (count_list as a)) (first_seen as))
     = filter (\<lambda>a. count_list as a = k) (first_seen as)"
    by simp
qed

text \<open>The example of the specification: \<open>[A,A,B,A,C,C,B]\<close> ranks \<open>A(3), B(2), C(2)\<close>.\<close>

lemma top_artists_example:
  "top_artists (hist [''A'', ''A'', ''B'', ''A'', ''C'', ''C'', ''B'']) = [(''A'', 3), (''B'', 2), (''C'', 2)]"
  by (simp add: top_artists_def most_common_def Counter_def hist_def)

text \<open>
  Claim C3, as the code has it. The artists counted are those of the history entries that
  have one (a non-empty string). The three chosen are the top three of the specification's
  ranking: by descending count, ties in first-encountered order, each with its count. The
  tracks returned are the tracks of the catalog whose artist is one of the three, each as
  often as the catalog has it; they come grouped by artist, the most played artist first,
  and in catalog order inside each group. An empty history gives the empty list, a missing
  history file adds no playlist, and otherwise the list is stored under the name of the
  recommended playlist.
\<close>

theorem recommended_by_rank:
  "map fst (top_artists data) = spec_top3 (map h_artist (filter (\<lambda>d. h_artist d \<noteq> '''') data))
   \<and> map snd (top_artists data) =
       map (count_list (map h_artist (filter (\<lambda>d. h_artist d \<noteq> '''') data))) (map fst (top_artists data))
   \<and> recommended data cat =
       concat (map (\<lambda>a. filter (\<lambda>t. artist t = a) cat) (map fst (top_artists data)))
   \<and> mset (recommended data cat) =
       mset (filter (\<lambda>t. artist t \<in> set (map fst (top_artists data))) cat)
   \<and> filter (\<lambda>t. artist t = a) (recommended data cat) =
       (if a \<in> set (map fst (top_artists data)) then filter (\<lambda>t. artist t = a) cat else [])
   \<and> recommended [] cat = []
   \<and> make_recommended None s = s
   \<and> playlists (make_recommended (Some data) s) =
       AList.update reco_name (recommended data (tracks (library s))) (playlists s)"
proof -
  let ?as = "map h_artist (filter (\<lambda>d. h_artist d \<noteq> '''') data)"
  have f: "map fst (top_artists data) = spec_top3 ?as"
    by (simp add: top_artists_eq comp_def)
  have s: "map snd (top_artists data) = map (count_list ?as) (map fst (top_artists data))"
    by (simp add: top_artists_eq comp_def)
  have r: "recommended data cat =
       concat (map (\<lambda>a. filter (\<lambda>t. artist t = a) cat) (map fst (top_artists data)))"
    by (simp add: recommended_def comp_def case_prod_unfold)
  have d: "distinct (map fst (top_artists data))"
    unfolding f by (rule distinct_spec_top3)
  have m: "mset (recommended data cat) =
       mset (filter (\<lambda>t. artist t \<in> set (map fst (top_artists data))) cat)"
    unfolding r using d by (rule mset_groups)
  have g: "filter (\<lambda>t. artist t = a) (recommended data cat) =
       (if a \<in> set (map fst (top_artists data)) then filter (\<lambda>t. artist t = a) cat else [])"
    unfolding r using d by (rule filter_groups)
  have e: "recommended [] cat = []"
    by (simp add: recommended_def top_artists_def most_common_def Counter_def)
  have n: "make_recommended None s = s"
    by (simp add: make_recommended_def)
  have p: "playlists (make_recommended (Some data) s) =
       AList.update reco_name (recommended data (tracks (library s))) (playlists s)"
    by (simp add: make_recommended_def add_playlist_def)
  show ?thesis using f s r m g e n p by blast
qed

text \<open>The theorem at the history \<open>[Bob, Bob, Ann]\<close> and the example library.\<close>

theorem recommended_by_rank_witness:
  "map fst (top_artists (hist [''Bob'', ''Bob'', ''Ann''])) = [''Bob'', ''Ann'']
   \<and> recommended (hist [''Bob'', ''Bob'', ''Ann'']) [track_a, track_b, track_c] = [track_b, track_a]"
proof -
  have t: "top_artists (hist [''Bob'', ''Bob'', ''Ann'']) = [(''Bob'', 2), (''Ann'', 1)]"
    by (simp add: top_artists_def most_common_def Counter_def hist_def)
  from recommended_by_rank[of "hist [''Bob'', ''Bob'', ''Ann'']" "[track_a, track_b, track_c]"]
  have "recommended (hist [''Bob'', ''Bob'', ''Ann'']) [track_a, track_b, track_c] =
       concat (map (\<lambda>a. filter (\<lambda>t. artist t = a) [track_a, track_b, track_c]) [''Bob'', ''Ann''])"
    unfolding t by simp
  then show ?thesis unfolding t by (simp add: track_a_def track_b_def track_c_def)
qed

text \<open>
  As claim C3 states it, the tracks come in catalog order. With the history
  \<open>[Bob, Bob, Ann]\<close> and the catalog \<open>[a, b]\<close> (\<open>a\<close> by Ann, \<open>b\<close> by Bob) the result is
  \<open>[b, a]\<close>: the track of the most played artist comes first, against the catalog order
  \<open>[a, b]\<close>.
\<close>

theorem recommended_order_counterexample:
  "recommended (hist [''Bob'', ''Bob'', ''Ann'']) [track_a, track_b] = [track_b, track_a]
   \<and> recommended (hist [''Bob'', ''Bob'', ''Ann'']) [track_a, track_b]
       \<noteq> filter (\<lambda>t. artist t \<in> {''Bob'', ''Ann''}) [track_a, track_b]"
  by (simp add: recommended_def top_artists_def most_common_def Counter_def hist_def
      track_a_def track_b_def)

subsection \<open>The highlighted line of the lyrics\<close>

declare forward.simps [simp del] backward.simps [simp del]

lemma forward_spec:
  "- 1 \<le> i \<Longrightarrow> i < int (length ls) \<Longrightarrow>
   \<exists>j. forward ls sec i = Inr j \<and> i \<le> j \<and> j < int (length ls) \<and>
       (j + 1 < int (length ls) \<longrightarrow> sec < fst (ls ! nat (j + 1))) \<and>
       (\<forall>k. i < k \<and> k \<le> j \<longrightarrow> fst (ls ! nat k) \<le> sec)"
proof (induction ls sec i rule: forward.induct)
  case (1 ls sec i)
  show ?case
  proof (cases "i + 1 < int (length ls)")
    case False
    then show ?thesis using "1.prems" by (simp add: forward.simps[of ls sec i])
  next
    case True
    then have g: "getitem ls (i + 1) = Inr (ls ! nat (i + 1))"
      using "1.prems" by (simp add: getitem_valid)
    show ?thesis
    proof (cases "fst (ls ! nat (i + 1)) \<le> sec")
      case False
      then show ?thesis using True g "1.prems" by (simp add: forward.simps[of ls sec i])
    next
      case le: True
      from "1.IH"[OF True g le] True "1.prems"
      obtain j where j: "forward ls sec (i + 1) = Inr j" "i + 1 \<le> j" "j < int (length ls)"
        "j + 1 < int (length ls) \<longrightarrow> sec < fst (ls ! nat (j + 1))"
        "\<forall>k. i + 1 < k \<and> k \<le> j \<longrightarrow> fst (ls ! nat k) \<le> sec"
        by auto
      have "fst (ls ! nat k) \<le> sec" if "i < k \<and> k \<le> j" for k
      proof (cases "k = i + 1")
        case True
        then show ?thesis using le by simp
      next
        case False
        then show ?thesis using that j(5) by auto
      qed
      then show ?thesis using j True g le by (simp add: forward.simps[of ls sec i])
    qed
  qed
qed

lemma backward_spec:
  "- 1 \<le> j \<Longrightarrow> j < int (length ls) \<Longrightarrow>
   \<exists>r. backward ls sec j = Inr r \<and> r \<le> j \<and> (0 \<le> j \<longrightarrow> 0 \<le> r) \<and> (j = - 1 \<longrightarrow> r = - 1) \<and>
       (0 < r \<longrightarrow> fst (ls ! nat r) \<le> sec) \<and>
       (\<forall>k. r < k \<and> k \<le> j \<longrightarrow> sec < fst (ls ! nat k))"
proof (induction ls sec j rule: backward.induct)
  case (1 ls sec j)
  show ?case
  proof (cases "0 < j")
    case False
    then show ?thesis using "1.prems" by (auto simp add: backward.simps[of ls sec j])
  next
    case True
    then have g: "getitem ls j = Inr (ls ! nat j)"
      using "1.prems" by (simp add: getitem_valid)
    show ?thesis
    proof (cases "sec < fst (ls ! nat j)")
      case False
      then show ?thesis using True g "1.prems" by (simp add: backward.simps[of ls sec j])
    next
      case gt: True
      from "1.IH"[OF True g gt] True "1.prems"
      obtain r where r: "backward ls sec (j - 1) = Inr r" "r \<le> j - 1" "0 \<le> r"
        "0 < r \<longrightarrow> fst (ls ! nat r) \<le> sec"
        "\<forall>k. r < k \<and> k \<le> j - 1 \<longrightarrow> sec < fst (ls ! nat k)"
        by auto
      have "sec < fst (ls ! nat k)" if "r < k \<and> k \<le> j" for k
      proof (cases "k = j")
        case True
        then show ?thesis using gt by simp
      next
        case False
        then show ?thesis using that r(5) by auto
      qed
      then show ?thesis using r True g gt by (simp add: backward.simps[of ls sec j])
    qed
  qed
qed

lemma sorted_fst_nth:
  "sorted (map fst ls) \<Longrightarrow> a \<le> b \<Longrightarrow> b < length ls \<Longrightarrow> fst (ls ! a) \<le> fst (ls ! b)"
  using sorted_nth_mono[of "map fst ls" a b] by simp

lemma tick_result:
  assumes "sorted (map fst (lines p))" "lines p \<noteq> []" "- 1 \<le> idx p"
    "idx p < int (length (lines p))"
  shows "\<exists>r. tick (Some sec) p = Inr (p\<lparr>idx := r\<rparr>) \<and> - 1 \<le> r \<and> r < int (length (lines p)) \<and>
    ((\<exists>e\<in>set (lines p). fst e \<le> sec) \<longrightarrow>
       0 \<le> r \<and> fst (lines p ! nat r) \<le> sec \<and>
       (\<forall>k. nat r < k \<and> k < length (lines p) \<longrightarrow> sec < fst (lines p ! k))) \<and>
    ((\<forall>e\<in>set (lines p). sec < fst e) \<longrightarrow> r = (if idx p = - 1 then - 1 else 0))"
proof -
  let ?ls = "lines p"
  from forward_spec[OF assms(3,4), of sec]
  obtain j where j: "forward ?ls sec (idx p) = Inr j" "idx p \<le> j" "j < int (length ?ls)"
    "j + 1 < int (length ?ls) \<longrightarrow> sec < fst (?ls ! nat (j + 1))"
    "\<forall>k. idx p < k \<and> k \<le> j \<longrightarrow> fst (?ls ! nat k) \<le> sec"
    by blast
  have j1: "- 1 \<le> j" using j(2) assms(3) by simp
  from backward_spec[OF j1 j(3), of sec]
  obtain r where r: "backward ?ls sec j = Inr r" "r \<le> j" "0 \<le> j \<longrightarrow> 0 \<le> r" "j = - 1 \<longrightarrow> r = - 1"
    "0 < r \<longrightarrow> fst (?ls ! nat r) \<le> sec"
    "\<forall>k. r < k \<and> k \<le> j \<longrightarrow> sec < fst (?ls ! nat k)"
    by blast
  have rlo: "- 1 \<le> r" using r(3,4) j1 by (cases "j = - 1") auto
  have rhi: "r < int (length ?ls)" using r(2) j(3) by simp
  have t: "tick (Some sec) p = Inr (p\<lparr>idx := r\<rparr>)"
  proof (cases "r = idx p")
    case True
    then show ?thesis using assms(2) j(1) r(1) by (simp add: tick_def)
  next
    case False
    then have "0 \<le> r" using rlo r(2,3,4) j(2) j1 assms(3) by (cases "j = - 1") auto
    then show ?thesis using False assms(2) j(1) r(1) rhi by (simp add: tick_def)
  qed
  have A: "0 \<le> r \<and> fst (?ls ! nat r) \<le> sec \<and>
       (\<forall>k. nat r < k \<and> k < length ?ls \<longrightarrow> sec < fst (?ls ! k))"
    if ex: "\<exists>e\<in>set ?ls. fst e \<le> sec"
  proof -
    from ex obtain m where m: "m < length ?ls" "fst (?ls ! m) \<le> sec"
      by (auto simp: in_set_conv_nth)
    have z: "fst (?ls ! 0) \<le> sec"
      using sorted_fst_nth[OF assms(1), of 0 m] m by simp
    have jn: "0 \<le> j"
    proof (rule ccontr)
      assume "\<not> 0 \<le> j"
      then have "j = - 1" using j1 by simp
      then show False using j(4) assms(2) z by simp
    qed
    then have r0: "0 \<le> r" using r(3) by simp
    have le: "fst (?ls ! nat r) \<le> sec"
    proof (cases "0 < r")
      case True
      then show ?thesis using r(5) by simp
    next
      case False
      then show ?thesis using r0 z by simp
    qed
    have gt: "sec < fst (?ls ! k)" if k: "nat r < k \<and> k < length ?ls" for k
    proof (cases "int k \<le> j")
      case True
      then show ?thesis using r(6) k r0 by (auto dest: spec[of _ "int k"])
    next
      case False
      then have "j + 1 < int (length ?ls)" "nat (j + 1) \<le> k" using k jn by auto
      then have "sec < fst (?ls ! nat (j + 1))" "fst (?ls ! nat (j + 1)) \<le> fst (?ls ! k)"
        using j(4) sorted_fst_nth[OF assms(1), of "nat (j + 1)" k] k by auto
      then show ?thesis by simp
    qed
    show ?thesis using r0 le gt by blast
  qed
  have B: "r = (if idx p = - 1 then - 1 else 0)" if all: "\<forall>e\<in>set ?ls. sec < fst e"
  proof -
    have no: "\<not> fst (?ls ! nat k) \<le> sec" if "0 \<le> k" "k < int (length ?ls)" for k
    proof -
      have "?ls ! nat k \<in> set ?ls" using that by simp
      then show ?thesis using all by fastforce
    qed
    have "j = idx p"
    proof (rule ccontr)
      assume "j \<noteq> idx p"
      then have "idx p < j" using j(2) by simp
      then have "fst (?ls ! nat j) \<le> sec" "0 \<le> j" using j(5) assms(3) by auto
      then show False using no[of j] j(3) by simp
    qed
    moreover have "r \<le> 0" using r(5) no[of r] rhi by auto
    ultimately show ?thesis using r(3,4) assms(3) by auto
  qed
  show ?thesis using t rlo rhi A B by blast
qed

text \<open>
  Claim C9, as the code has it. The lyrics are sorted and not empty, and the highlighted
  index is \<open>-1\<close> (none) or an index of the document. A tick at position \<open>sec\<close> returns, keeps
  the document, and leaves a valid index. When some entry has a time stamp at or before the
  position, the highlighted line is the last such entry. When the position is before the
  first time stamp, nothing is highlighted if nothing was before, and otherwise the first
  line is, although its time stamp is after the position. A second tick at \<open>sec'\<close> does not
  move the index down when \<open>sec \<le> sec'\<close> and does not move it up when \<open>sec' \<le> sec\<close>.
\<close>

theorem tick_active_line:
  assumes "sorted (map fst (lines p))" "lines p \<noteq> []" "- 1 \<le> idx p"
    "idx p < int (length (lines p))"
  shows "\<exists>p'. tick (Some sec) p = Inr p' \<and> lines p' = lines p \<and>
      - 1 \<le> idx p' \<and> idx p' < int (length (lines p)) \<and>
      ((\<exists>e\<in>set (lines p). fst e \<le> sec) \<longrightarrow>
         0 \<le> idx p' \<and> fst (lines p ! nat (idx p')) \<le> sec \<and>
         (\<forall>k. nat (idx p') < k \<and> k < length (lines p) \<longrightarrow> sec < fst (lines p ! k))) \<and>
      ((\<forall>e\<in>set (lines p). sec < fst e) \<longrightarrow> idx p' = (if idx p = - 1 then - 1 else 0)) \<and>
      (\<exists>p''. tick (Some sec') p' = Inr p'' \<and>
         (sec \<le> sec' \<longrightarrow> idx p' \<le> idx p'') \<and> (sec' \<le> sec \<longrightarrow> idx p'' \<le> idx p'))"
proof -
  let ?ls = "lines p"
  from tick_result[OF assms, of sec]
  obtain r where r: "tick (Some sec) p = Inr (p\<lparr>idx := r\<rparr>)" "- 1 \<le> r" "r < int (length ?ls)"
    "(\<exists>e\<in>set ?ls. fst e \<le> sec) \<longrightarrow>
       0 \<le> r \<and> fst (?ls ! nat r) \<le> sec \<and> (\<forall>k. nat r < k \<and> k < length ?ls \<longrightarrow> sec < fst (?ls ! k))"
    "(\<forall>e\<in>set ?ls. sec < fst e) \<longrightarrow> r = (if idx p = - 1 then - 1 else 0)"
    by blast
  let ?p' = "p\<lparr>idx := r\<rparr>"
  have a': "sorted (map fst (lines ?p'))" "lines ?p' \<noteq> []" "- 1 \<le> idx ?p'"
    "idx ?p' < int (length (lines ?p'))"
    using assms r(2,3) by simp_all
  from tick_result[OF a', of sec']
  have "\<exists>r'. tick (Some sec') ?p' = Inr (p\<lparr>idx := r'\<rparr>) \<and> - 1 \<le> r' \<and> r' < int (length ?ls) \<and>
    ((\<exists>e\<in>set ?ls. fst e \<le> sec') \<longrightarrow>
       0 \<le> r' \<and> fst (?ls ! nat r') \<le> sec' \<and> (\<forall>k. nat r' < k \<and> k < length ?ls \<longrightarrow> sec' < fst (?ls ! k))) \<and>
    ((\<forall>e\<in>set ?ls. sec' < fst e) \<longrightarrow> r' = (if r = - 1 then - 1 else 0))"
    by simp
  then obtain r' where r': "tick (Some sec') ?p' = Inr (p\<lparr>idx := r'\<rparr>)" "- 1 \<le> r'"
    "r' < int (length ?ls)"
    "(\<exists>e\<in>set ?ls. fst e \<le> sec') \<longrightarrow>
       0 \<le> r' \<and> fst (?ls ! nat r') \<le> sec' \<and> (\<forall>k. nat r' < k \<and> k < length ?ls \<longrightarrow> sec' < fst (?ls ! k))"
    "(\<forall>e\<in>set ?ls. sec' < fst e) \<longrightarrow> r' = (if r = - 1 then - 1 else 0)"
    by blast
  have up: "r \<le> r'" if le: "sec \<le> sec'"
  proof (cases "\<exists>e\<in>set ?ls. fst e \<le> sec'")
    case ex': True
    show ?thesis
    proof (cases "\<exists>e\<in>set ?ls. fst e \<le> sec")
      case True
      from r(4) True r'(4) ex' have R: "0 \<le> r" "fst (?ls ! nat r) \<le> sec"
        "0 \<le> r'" "\<forall>k. nat r' < k \<and> k < length ?ls \<longrightarrow> sec' < fst (?ls ! k)" by auto
      show ?thesis
      proof (rule ccontr)
        assume "\<not> r \<le> r'"
        then have "nat r' < nat r \<and> nat r < length ?ls" using R(1,3) r(3) by auto
        then have "sec' < fst (?ls ! nat r)" using R(4) by blast
        then show False using R(2) le by simp
      qed
    next
      case False
      then have "\<forall>e\<in>set ?ls. sec < fst e" by auto
      with r(5) r'(4) ex' show ?thesis by auto
    qed
  next
    case False
    then have n': "\<forall>e\<in>set ?ls. sec' < fst e" by auto
    then have "\<forall>e\<in>set ?ls. sec < fst e" using le by fastforce
    with r(5) r'(5) n' show ?thesis by auto
  qed
  have down: "r' \<le> r" if le: "sec' \<le> sec"
  proof (cases "\<exists>e\<in>set ?ls. fst e \<le> sec'")
    case ex': True
    then have ex: "\<exists>e\<in>set ?ls. fst e \<le> sec" using le by (meson order_trans)
    from r(4) ex r'(4) ex' have R: "0 \<le> r'" "fst (?ls ! nat r') \<le> sec'"
      "0 \<le> r" "\<forall>k. nat r < k \<and> k < length ?ls \<longrightarrow> sec < fst (?ls ! k)" by auto
    have hi: "r' < int (length ?ls)" by (rule r'(3))
    show ?thesis
    proof (rule ccontr)
      assume "\<not> r' \<le> r"
      then have "nat r < nat r' \<and> nat r' < length ?ls" using R(1,3) hi by auto
      then have "sec < fst (?ls ! nat r')" using R(4) by blast
      then show False using R(2) le by simp
    qed
  next
    case False
    then have n': "\<forall>e\<in>set ?ls. sec' < fst e" by auto
    from r'(5) n' r(2) show ?thesis by auto
  qed
  have m: "\<exists>p''. tick (Some sec') ?p' = Inr p'' \<and>
         (sec \<le> sec' \<longrightarrow> idx ?p' \<le> idx p'') \<and> (sec' \<le> sec \<longrightarrow> idx p'' \<le> idx ?p')"
    using r'(1) up down by simp
  have c: "tick (Some sec) p = Inr ?p' \<and> lines ?p' = lines p \<and>
      - 1 \<le> idx ?p' \<and> idx ?p' < int (length (lines p)) \<and>
      ((\<exists>e\<in>set (lines p). fst e \<le> sec) \<longrightarrow>
         0 \<le> idx ?p' \<and> fst (lines p ! nat (idx ?p')) \<le> sec \<and>
         (\<forall>k. nat (idx ?p') < k \<and> k < length (lines p) \<longrightarrow> sec < fst (lines p ! k))) \<and>
      ((\<forall>e\<in>set (lines p). sec < fst e) \<longrightarrow> idx ?p' = (if idx p = - 1 then - 1 else 0))"
    using r by simp
  show ?thesis using c m by blast
qed

text \<open>The theorem at the example panel, position fifteen seconds: the first line.\<close>

theorem tick_active_line_witness:
  "sorted (map fst (lines demo_panel)) \<and> lines demo_panel \<noteq> [] \<and> - 1 \<le> idx demo_panel
   \<and> idx demo_panel < int (length (lines demo_panel))
   \<and> (\<exists>e\<in>set (lines demo_panel). fst e \<le> 15)
   \<and> (\<exists>p'. tick (Some 15) demo_panel = Inr p' \<and> idx p' = 0)"
proof -
  have h: "sorted (map fst (lines demo_panel))" "lines demo_panel \<noteq> []" "- 1 \<le> idx demo_panel"
    "idx demo_panel < int (length (lines demo_panel))"
    by (simp_all add: demo_panel_def)
  have e: "\<exists>e\<in>set (lines demo_panel). fst e \<le> 15"
    by (simp add: demo_panel_def)
  from tick_active_line[OF h, of 15 15] e
  obtain p' where p': "tick (Some 15) demo_panel = Inr p'" "0 \<le> idx p'"
    "idx p' < int (length (lines demo_panel))" "fst (lines demo_panel ! nat (idx p')) \<le> 15"
    by blast
  have "idx p' = 0"
  proof (rule ccontr)
    assume "idx p' \<noteq> 0"
    then have "nat (idx p') = 1" using p'(2,3) by (simp add: demo_panel_def)
    then show False using p'(4) by (simp add: demo_panel_def)
  qed
  then show ?thesis using h e p'(1) by blast
qed

text \<open>
  As claim C9 states it, the highlighted line is at every position an entry whose time
  stamp is at or before the position. With the second line of the example panel
  highlighted and the position moved back to five seconds, the tick highlights line \<open>0\<close>,
  whose time stamp is ten seconds.
\<close>

theorem tick_seek_back_counterexample:
  "map_sum id idx (tick (Some 5) (demo_panel\<lparr>idx := 1\<rparr>)) = Inr 0
   \<and> \<not> fst (lines demo_panel ! 0) \<le> 5"
  by (simp add: tick_def demo_panel_def forward.simps backward.simps getitem_def)

subsection \<open>Reading metadata\<close>

text \<open>
  Claim C7, as the code has it. \<^verbatim>\<open>read_metadata\<close> never raises: both \<^verbatim>\<open>try\<close> blocks catch
  every exception, so the model has a value for every behaviour of the tag library and no
  error result. When the audio file cannot be parsed, the title is the file name without
  extension, the other text fields are empty and the duration is \<open>0\<close>. When the audio file
  parses and reading the tags fails, the title is the file name without extension and the
  genre is empty, but the duration is the one read from the audio file, and the artist and
  the album are the values read before the failure (empty when the tags could not be
  opened at all). When nothing fails, the result is the cleaned title and the tags.
\<close>

theorem read_metadata_fallback:
  "(MP3 lib p = None \<longrightarrow> read_metadata lib p = (stem p, '''', '''', '''', 0))
   \<and> (MP3 lib p = Some dur \<and> EasyID3 lib p = None \<longrightarrow>
        read_metadata lib p = (stem p, '''', '''', '''', dur))
   \<and> (MP3 lib p = Some dur \<and> EasyID3 lib p = Some eid \<and>
        (get_first eid ''title'' [stem p] = None \<or> get_first eid ''artist'' [''Unknown Artist''] = None) \<longrightarrow>
        read_metadata lib p = (stem p, '''', '''', '''', dur))
   \<and> (MP3 lib p = Some dur \<and> EasyID3 lib p = Some eid \<and>
        get_first eid ''title'' [stem p] = Some t \<and> get_first eid ''artist'' [''Unknown Artist''] = Some ar \<and>
        get_first eid ''album'' [''''] = None \<longrightarrow>
        read_metadata lib p = (stem p, ar, '''', '''', dur))
   \<and> (MP3 lib p = Some dur \<and> EasyID3 lib p = Some eid \<and>
        get_first eid ''title'' [stem p] = Some t \<and> get_first eid ''artist'' [''Unknown Artist''] = Some ar \<and>
        get_first eid ''album'' [''''] = Some al \<and> get_first eid ''genre'' [''''] = None \<longrightarrow>
        read_metadata lib p = (stem p, ar, al, '''', dur))
   \<and> (MP3 lib p = Some dur \<and> EasyID3 lib p = Some eid \<and>
        get_first eid ''title'' [stem p] = Some t \<and> get_first eid ''artist'' [''Unknown Artist''] = Some ar \<and>
        get_first eid ''album'' [''''] = Some al \<and> get_first eid ''genre'' [''''] = Some ge \<longrightarrow>
        read_metadata lib p = (clean_title t, ar, al, ge, dur))"
  by (auto simp: read_metadata_def split: option.splits)

text \<open>The theorem at the three example behaviours of the tag library.\<close>

theorem read_metadata_fallback_witness:
  "MP3 broken_lib ''/m/a.mp3'' = None
   \<and> read_metadata broken_lib ''/m/a.mp3'' = (''a'', '''', '''', '''', 0)
   \<and> MP3 untagged_lib ''/m/a.mp3'' = Some 180 \<and> EasyID3 untagged_lib ''/m/a.mp3'' = None
   \<and> read_metadata untagged_lib ''/m/a.mp3'' = (''a'', '''', '''', '''', 180)
   \<and> read_metadata tagged_lib ''/m/a.mp3'' = (''a'', ''Ann'', '''', '''', 200)"
proof -
  have s: "stem ''/m/a.mp3'' = ''a''"
    by (simp add: stem_def basename_def splitext_root_def rfind_def)
  have b: "MP3 broken_lib ''/m/a.mp3'' = None" by (simp add: broken_lib_def)
  have u: "MP3 untagged_lib ''/m/a.mp3'' = Some 180 \<and> EasyID3 untagged_lib ''/m/a.mp3'' = None"
    by (simp add: untagged_lib_def)
  let ?eid = "[''title'' \<mapsto> [''Song (Lyrics)''], ''artist'' \<mapsto> [''Ann''], ''album'' \<mapsto> []]"
  have t: "MP3 tagged_lib ''/m/a.mp3'' = Some 200 \<and> EasyID3 tagged_lib ''/m/a.mp3'' = Some ?eid \<and>
        get_first ?eid ''title'' [stem ''/m/a.mp3''] = Some ''Song (Lyrics)'' \<and>
        get_first ?eid ''artist'' [''Unknown Artist''] = Some ''Ann'' \<and>
        get_first ?eid ''album'' [''''] = None"
    by (simp add: tagged_lib_def get_first_def)
  from read_metadata_fallback[of broken_lib "''/m/a.mp3''"] b
  have 1: "read_metadata broken_lib ''/m/a.mp3'' = (''a'', '''', '''', '''', 0)"
    unfolding s by blast
  from read_metadata_fallback[of untagged_lib "''/m/a.mp3''" 180] u
  have 2: "read_metadata untagged_lib ''/m/a.mp3'' = (''a'', '''', '''', '''', 180)"
    unfolding s by blast
  from read_metadata_fallback[of tagged_lib "''/m/a.mp3''" 200 ?eid "''Song (Lyrics)''" "''Ann''"] t
  have 3: "read_metadata tagged_lib ''/m/a.mp3'' = (''a'', ''Ann'', '''', '''', 200)"
    unfolding s by blast
  show ?thesis using b u 1 2 3 by blast
qed

text \<open>
  As claim C7 states it, every parse failure gives the duration \<open>0\<close>. For a file of 180
  seconds without an ID3 header, opening the tags fails and the duration returned is
  \<open>180\<close>.
\<close>

theorem read_metadata_duration_counterexample:
  "EasyID3 untagged_lib ''/m/a.mp3'' = None
   \<and> read_metadata untagged_lib ''/m/a.mp3'' = (''a'', '''', '''', '''', 180)
   \<and> snd (snd (snd (snd (read_metadata untagged_lib ''/m/a.mp3'')))) \<noteq> 0"
  by (simp add: read_metadata_def untagged_lib_def stem_def basename_def splitext_root_def rfind_def)

subsection \<open>Late metadata updates\<close>

text \<open>
  What \<^verbatim>\<open>_update_row\<close> does with a row number: beyond the table, nothing; inside the table,
  the row and the track at that number take the values of the message and keep their
  path, whichever file the message was read from.
\<close>

lemma update_row_beyond:
  "length (table lib) \<le> r \<Longrightarrow> update_row r ttl ar al ge dur_str lib = lib"
  by (simp add: update_row_def)

lemma update_row_within:
  "r < length (table lib) \<Longrightarrow> r < length (tracks lib) \<Longrightarrow>
   tracks (update_row r ttl ar al ge dur_str lib) ! r =
     (tracks lib ! r)\<lparr>title := ttl, artist := ar, album := al, genre := ge,
        duration := parse_duration dur_str\<rparr>"
  by (simp add: update_row_def Let_def)

lemma stem_a: "stem ''/m/a.mp3'' = ''a''"
    by (simp add: stem_def basename_def splitext_root_def rfind_def)
lemma stem_b: "stem ''/m/b.mp3'' = ''b''"
    by (simp add: stem_def basename_def splitext_root_def rfind_def)

lemma late_update_eq: "late_update = \<lparr>u_row = 0, u_title = ''Song A'', u_artist = ''Ann'', u_album = '''',
       u_genre = '''', u_dur = ''3:07''\<rparr>"
proof -
  have f: "\<lfloor>187 / 60 :: real\<rfloor> = 3" by linarith
  have g: "\<lfloor>187 - 60 * 3 :: real\<rfloor> = 7" by simp
  have d: "fmt_duration 187 = ''3:07''"
    unfolding fmt_duration_def f by (simp add: show_int_def show_nat.simps pad2_def)
  have r: "read_metadata song_lib ''/m/a.mp3'' = (''Song A'', ''Ann'', '''', '''', 187)"
    by (simp add: read_metadata_def song_lib_def get_first_def clean_title_def)
  show ?thesis
    by (simp add: late_update_def first_scan_def library_load_def metadata_message_def r d)
qed

text \<open>
  Claim C2 at the example. The update posted for \<^verbatim>\<open>a.mp3\<close> carries row \<open>0\<close>. After the
  rescan the entry of \<^verbatim>\<open>a.mp3\<close> is gone and row \<open>0\<close> is \<^verbatim>\<open>b.mp3\<close>. Applying the late
  update is not a no-op: the track of \<^verbatim>\<open>b.mp3\<close> gets the title, the artist and the
  duration of \<^verbatim>\<open>a.mp3\<close>.
\<close>

theorem stale_update_overwrites:
  "late_update = \<lparr>u_row = 0, u_title = ''Song A'', u_artist = ''Ann'', u_album = '''',
       u_genre = '''', u_dur = ''3:07''\<rparr>
   \<and> map path (tracks first_scan) = [''/m/a.mp3'', ''/m/b.mp3'']
   \<and> tracks rescan = [\<lparr>path = ''/m/b.mp3'', title = ''b'', artist = ''Unknown Artist'',
         album = '''', genre = '''', duration = 0\<rparr>]
   \<and> tracks (apply_update late_update rescan) =
       [\<lparr>path = ''/m/b.mp3'', title = ''Song A'', artist = ''Ann'', album = '''', genre = '''',
         duration = 187\<rparr>]
   \<and> apply_update late_update rescan \<noteq> rescan"
proof -
  have p: "parse_duration ''3:07'' = 187"
    by (simp add: parse_duration_def int_of_str_def strip_def is_space_def is_digit_def dec_def
        digit_value_def)
  have a: "map path (tracks first_scan) = [''/m/a.mp3'', ''/m/b.mp3'']"
    by (simp add: first_scan_def library_load_def placeholder_track_def)
  have b: "tracks rescan = [\<lparr>path = ''/m/b.mp3'', title = ''b'', artist = ''Unknown Artist'',
         album = '''', genre = '''', duration = 0\<rparr>]"
    by (simp add: rescan_def library_load_def placeholder_track_def stem_b)
  have c: "tracks (apply_update late_update rescan) =
       [\<lparr>path = ''/m/b.mp3'', title = ''Song A'', artist = ''Ann'', album = '''', genre = '''',
         duration = 187\<rparr>]"
    unfolding late_update_eq
    by (simp add: apply_update_def update_row_def rescan_def library_load_def placeholder_track_def p)
  have "tracks (apply_update late_update rescan) \<noteq> tracks rescan"
    unfolding b c by simp
  then have d: "apply_update late_update rescan \<noteq> rescan" by auto
  show ?thesis using late_update_eq a b c d by blast
qed

subsection \<open>Saving and loading the state\<close>

lemma from_dict_to_dict: "from_dict (to_dict t) = t"
  by (simp add: from_dict_def to_dict_def get_str_def)

lemma from_dict_comp: "from_dict \<circ> to_dict = id"
  by (simp add: fun_eq_iff from_dict_to_dict)

lemma map_from_dict_to_dict: "map from_dict (map to_dict ts) = ts"
  by (simp add: from_dict_comp)

lemma update_absent: "k \<notin> fst ` set al \<Longrightarrow> AList.update k v al = al @ [(k, v)]"
  by (induction al) auto

lemma foldl_update_fresh:
  "distinct (map fst xs) \<Longrightarrow> fst ` set al \<inter> fst ` set xs = {} \<Longrightarrow>
   foldl (\<lambda>al (k, v). AList.update k (g v) al) al xs = al @ map (\<lambda>(k, v). (k, g v)) xs"
proof (induction xs arbitrary: al)
  case Nil
  then show ?case by simp
next
  case (Cons x xs)
  obtain k v where x: "x = (k, v)" by (cases x)
  have k: "k \<notin> fst ` set al" using Cons.prems(2) x by auto
  have d: "distinct (map fst xs)" "fst ` set (al @ [(k, g v)]) \<inter> fst ` set xs = {}"
    using Cons.prems x by auto
  show ?case using Cons.IH[OF d] x by (simp add: update_absent[OF k])
qed

lemma foldl_add_playlist:
  "foldl (\<lambda>st (name, arr). add_playlist name (g arr) st) s xs =
     s\<lparr>playlists := foldl (\<lambda>al (k, v). AList.update k (g v) al) (playlists s) xs\<rparr>"
  by (induction xs arbitrary: s) (auto simp: add_playlist_def)

lemma load_playlists:
  assumes "distinct (map fst pls)"
  shows "foldl (\<lambda>st (name, arr). add_playlist name (map from_dict arr) st) (s\<lparr>playlists := []\<rparr>)
           (map (\<lambda>(k, v). (k, map to_dict v)) pls) = s\<lparr>playlists := pls\<rparr>"
proof -
  have d: "distinct (map fst (map (\<lambda>(k, v). (k, map to_dict v)) pls))"
    using assms by (simp add: comp_def case_prod_unfold)
  have "foldl (\<lambda>al (k, v). AList.update k (map from_dict v) al) [] (map (\<lambda>(k, v). (k, map to_dict v)) pls)
      = map (\<lambda>(k, v). (k, map from_dict v)) (map (\<lambda>(k, v). (k, map to_dict v)) pls)"
    using foldl_update_fresh[OF d, of "[]" "map from_dict"] by simp
  also have "\<dots> = pls"
    by (induction pls) (auto simp: from_dict_comp)
  finally show ?thesis by (simp add: foldl_add_playlist)
qed

text \<open>
  Claim C10, as the code has it. The state is saved and a new window is started with the
  saved file. The playlists (a dictionary: no name twice), the queue and the play index
  are reproduced; the index is one that the program can have: at most the last position of
  a non-empty queue, \<open>0\<close> with an empty queue. The folder list is reproduced when it is not
  empty; an empty saved list leaves the folders that the new window detected. With a
  missing state file the window keeps what it started with: the detected folders, no
  playlists, an empty queue and the index \<open>0\<close>.
\<close>

theorem state_round_trip:
  assumes "distinct (map fst (playlists s))"
    "queue s \<noteq> [] \<Longrightarrow> play_index s \<le> int (length (queue s)) - 1"
    "queue s = [] \<Longrightarrow> play_index s = 0"
  shows "playlists (startup detected walk h (Saved (save_state s))) = playlists s
    \<and> queue (startup detected walk h (Saved (save_state s))) = queue s
    \<and> play_index (startup detected walk h (Saved (save_state s))) = play_index s
    \<and> folders (library (startup detected walk h (Saved (save_state s)))) =
        (if folders (library s) \<noteq> [] then folders (library s) else detected)
    \<and> startup detected walk h Missing = init_app detected walk h
    \<and> folders (library (startup detected walk h Missing)) = detected
    \<and> playlists (startup detected walk h Missing) = []
    \<and> queue (startup detected walk h Missing) = []
    \<and> play_index (startup detected walk h Missing) = 0"
proof -
  let ?i = "init_app detected walk h"
  let ?s1 = "if folders (library s) \<noteq> []
     then ?i\<lparr>library := library_load walk ((library ?i)\<lparr>folders := folders (library s)\<rparr>)\<rparr> else ?i"
  have e: "?s1\<lparr>playlists := []\<rparr> = ?s1" by (simp add: init_app_def)
  have p: "foldl (\<lambda>st (name, arr). add_playlist name (map from_dict arr) st) ?s1
           (map (\<lambda>(k, v). (k, map to_dict v)) (playlists s)) = ?s1\<lparr>playlists := playlists s\<rparr>"
    using load_playlists[OF assms(1), of ?s1] unfolding e .
  have f: "folders (library ?s1) = (if folders (library s) \<noteq> [] then folders (library s) else detected)"
    by (simp add: init_app_def library_load_def Let_def)
  have q0: "queue ?s1 = []" "play_index ?s1 = 0" by (simp_all add: init_app_def)
  have L: "startup detected walk h (Saved (save_state s)) =
     (if queue s \<noteq> []
      then sync_queue_table (?s1\<lparr>playlists := playlists s, queue := queue s,
             play_index := min (play_index s) (int (length (queue s)) - 1)\<rparr>)
      else ?s1\<lparr>playlists := playlists s\<rparr>)"
    unfolding startup_def load_state_def save_state_def
    by (simp add: Let_def p from_dict_comp del: foldl_map)
  have m: "min (play_index s) (int (length (queue s)) - 1) = play_index s" if "queue s \<noteq> []"
    using assms(2)[OF that] by simp
  have 1: "playlists (startup detected walk h (Saved (save_state s))) = playlists s"
    unfolding L by (simp add: sync_queue_table_def)
  have 2: "queue (startup detected walk h (Saved (save_state s))) = queue s"
    unfolding L using q0 by (simp add: sync_queue_table_def)
  have 3: "play_index (startup detected walk h (Saved (save_state s))) = play_index s"
    unfolding L using q0 m assms(3) by (simp add: sync_queue_table_def)
  have 4: "folders (library (startup detected walk h (Saved (save_state s)))) =
        (if folders (library s) \<noteq> [] then folders (library s) else detected)"
    unfolding L by (simp add: sync_queue_table_def init_app_def library_load_def Let_def)
  have 5: "startup detected walk h Missing = init_app detected walk h"
    by (simp add: startup_def load_state_def)
  have 6: "folders (library ?i) = detected" "playlists ?i = []" "queue ?i = []" "play_index ?i = 0"
    by (simp_all add: init_app_def library_load_def Let_def)
  show ?thesis unfolding 5 using 1 2 3 4 6 unfolding 5 by simp
qed

text \<open>The theorem at the example window with a playlist.\<close>

theorem state_round_trip_witness:
  "distinct (map fst (playlists demo_saved)) \<and> queue demo_saved \<noteq> []
   \<and> play_index demo_saved \<le> int (length (queue demo_saved)) - 1
   \<and> playlists (startup [''/home/u/Music''] (\<lambda>fs. []) [] (Saved (save_state demo_saved)))
        = [(''mix'', [track_a, track_c])]
   \<and> queue (startup [''/home/u/Music''] (\<lambda>fs. []) [] (Saved (save_state demo_saved)))
        = [track_a, track_b]
   \<and> play_index (startup [''/home/u/Music''] (\<lambda>fs. []) [] (Saved (save_state demo_saved))) = 1
   \<and> folders (library (startup [''/home/u/Music''] (\<lambda>fs. []) [] (Saved (save_state demo_saved))))
        = [''/m'']"
proof -
  have a: "distinct (map fst (playlists demo_saved))" "queue demo_saved \<noteq> []"
    "play_index demo_saved \<le> int (length (queue demo_saved)) - 1"
    by (simp_all add: demo_saved_def demo_app_def)
  have b: "playlists demo_saved = [(''mix'', [track_a, track_c])]" "queue demo_saved = [track_a, track_b]"
    "play_index demo_saved = 1" "folders (library demo_saved) = [''/m'']"
    by (simp_all add: demo_saved_def demo_app_def demo_library_def)
  from state_round_trip[of demo_saved "[''/home/u/Music'']" "\<lambda>fs. []" "[]"] a
  show ?thesis unfolding b by simp
qed

text \<open>
  As claim C10 states it, a missing state file yields empty defaults and every saved
  folder list comes back. Where the user's music folder exists, the window without a state
  file has that folder in its list; and the empty folder list of a window started where
  no music folder existed comes back as the detected folder.
\<close>

theorem default_folders_counterexample:
  "folders (library (startup [''/home/u/Music''] (\<lambda>fs. []) [] Missing)) = [''/home/u/Music'']
   \<and> folders (library (startup [''/home/u/Music''] (\<lambda>fs. []) [] Missing)) \<noteq> []
   \<and> folders (library demo_bare) = []
   \<and> folders (library (startup [''/home/u/Music''] (\<lambda>fs. []) [] (Saved (save_state demo_bare))))
        \<noteq> folders (library demo_bare)"
  by (simp add: startup_def load_state_def save_state_def init_app_def library_load_def demo_bare_def)

subsection \<open>Parsing timed lyrics\<close>










































end
